theory Spec2Isabelle
  imports Main
begin

section \<open>Python values used by addresbook.py\<close>

text \<open>
  A Python \<open>str\<close> is a sequence of Unicode code points; \<open>len\<close> counts code points.
  It is modelled as a list of code points. \<open>ascii\<close> turns an Isabelle string literal
  (one byte per character) into such a sequence.
\<close>

type_synonym pystr = "nat list"

definition ascii :: "string \<Rightarrow> pystr" where
  "ascii s = map of_char s"

text \<open>
  Every exception the modelled code can raise is a \<open>ValueError\<close> or an
  \<open>OverflowError\<close>, carrying its message.
\<close>

datatype error = ValueError string | OverflowError string

subsection \<open>str.isdigit and the regular expression class of decimal digits\<close>

text \<open>
  \<open>str.isdigit()\<close> is true when the string is not empty and every character has the
  Unicode property Numeric\_Type=Digit or Numeric\_Type=Decimal. The table lists the code
  point ranges with that property (Unicode 14.0.0, the data of CPython 3.11). It holds the
  ASCII digits 48..57, the digits of other scripts, and also characters such as the
  superscript digits 178, 179 and 185.
\<close>

definition DIGIT_RANGES :: "(nat \<times> nat) list" where
  "DIGIT_RANGES = [
    (48, 57), (178, 179), (185, 185), (1632, 1641), (1776, 1785), (1984, 1993),
    (2406, 2415), (2534, 2543), (2662, 2671), (2790, 2799), (2918, 2927), (3046, 3055),
    (3174, 3183), (3302, 3311), (3430, 3439), (3558, 3567), (3664, 3673), (3792, 3801),
    (3872, 3881), (4160, 4169), (4240, 4249), (4969, 4977), (6112, 6121), (6160, 6169),
    (6470, 6479), (6608, 6618), (6784, 6793), (6800, 6809), (6992, 7001), (7088, 7097),
    (7232, 7241), (7248, 7257), (8304, 8304), (8308, 8313), (8320, 8329), (9312, 9320),
    (9332, 9340), (9352, 9360), (9450, 9450), (9461, 9469), (9471, 9471),
    (10102, 10110), (10112, 10120), (10122, 10130), (42528, 42537), (43216, 43225),
    (43264, 43273), (43472, 43481), (43504, 43513), (43600, 43609), (44016, 44025),
    (65296, 65305), (66720, 66729), (68160, 68163), (68912, 68921), (69216, 69224),
    (69714, 69722), (69734, 69743), (69872, 69881), (69942, 69951), (70096, 70105),
    (70384, 70393), (70736, 70745), (70864, 70873), (71248, 71257), (71360, 71369),
    (71472, 71481), (71904, 71913), (72016, 72025), (72784, 72793), (73040, 73049),
    (73120, 73129), (92768, 92777), (92864, 92873), (93008, 93017), (120782, 120831),
    (123200, 123209), (123632, 123641), (125264, 125273), (127232, 127242),
    (130032, 130041)]"

text \<open>
  The characters with Numeric\_Type=Decimal (general category Nd): what \<open>\d\<close> matches
  in a \<open>str\<close> pattern and what \<open>int()\<close> converts. Every range is made of blocks of
  ten consecutive code points with the values 0..9.
\<close>

definition DECIMAL_RANGES :: "(nat \<times> nat) list" where
  "DECIMAL_RANGES = [
    (48, 57), (1632, 1641), (1776, 1785), (1984, 1993), (2406, 2415), (2534, 2543),
    (2662, 2671), (2790, 2799), (2918, 2927), (3046, 3055), (3174, 3183), (3302, 3311),
    (3430, 3439), (3558, 3567), (3664, 3673), (3792, 3801), (3872, 3881), (4160, 4169),
    (4240, 4249), (6112, 6121), (6160, 6169), (6470, 6479), (6608, 6617), (6784, 6793),
    (6800, 6809), (6992, 7001), (7088, 7097), (7232, 7241), (7248, 7257),
    (42528, 42537), (43216, 43225), (43264, 43273), (43472, 43481), (43504, 43513),
    (43600, 43609), (44016, 44025), (65296, 65305), (66720, 66729), (68912, 68921),
    (69734, 69743), (69872, 69881), (69942, 69951), (70096, 70105), (70384, 70393),
    (70736, 70745), (70864, 70873), (71248, 71257), (71360, 71369), (71472, 71481),
    (71904, 71913), (72016, 72025), (72784, 72793), (73040, 73049), (73120, 73129),
    (92768, 92777), (92864, 92873), (93008, 93017), (120782, 120831), (123200, 123209),
    (123632, 123641), (125264, 125273), (130032, 130041)]"

definition in_ranges :: "(nat \<times> nat) list \<Rightarrow> nat \<Rightarrow> bool" where
  "in_ranges rs c = list_ex (\<lambda>(lo, hi). lo \<le> c \<and> c \<le> hi) rs"

definition Py_UNICODE_ISDIGIT :: "nat \<Rightarrow> bool" where
  "Py_UNICODE_ISDIGIT c = in_ranges DIGIT_RANGES c"

definition Py_UNICODE_TODECIMAL :: "nat \<Rightarrow> int option" where
  "Py_UNICODE_TODECIMAL c =
     (case List.find (\<lambda>(lo, hi). lo \<le> c \<and> c \<le> hi) DECIMAL_RANGES of
        None \<Rightarrow> None
      | Some (lo, hi) \<Rightarrow> Some (int ((c - lo) mod 10)))"

definition isdigit :: "pystr \<Rightarrow> bool" where
  "isdigit s = (s \<noteq> [] \<and> list_all Py_UNICODE_ISDIGIT s)"

section \<open>Fields\<close>

text \<open>
  \<open>class Field\<close> holds one attribute, \<open>value\<close>; \<open>Name\<close>, \<open>Phone\<close> and
  \<open>Birthday\<close> are its subclasses. \<open>Field.__str__\<close> is \<open>str(self.value)\<close>, the
  value itself for a string.
\<close>

record 'a Field =
  field_value :: 'a

definition str_Field :: "pystr Field \<Rightarrow> pystr" where
  "str_Field f = field_value f"

definition Name :: "pystr \<Rightarrow> pystr Field" where
  "Name v = \<lparr>field_value = v\<rparr>"

text \<open>\<open>Phone.__init__\<close>: the value is kept unless the check raises.\<close>

definition Phone :: "pystr \<Rightarrow> error + pystr Field" where
  "Phone v =
     (if length v \<noteq> 10 \<or> \<not> isdigit v
      then Inl (ValueError ''Phone number must be 10 digits'')
      else Inr \<lparr>field_value = v\<rparr>)"

section \<open>Calendar dates\<close>

text \<open>
  \<open>datetime.date\<close> holds a year, a month and a day of the proleptic Gregorian calendar.
  The functions below are those of the runtime's reference implementation
  (\<open>datetime.py\<close>), with Python's unbounded integers as \<open>int\<close>; \<open>divmod\<close> by a
  positive number is \<open>div\<close> and \<open>mod\<close>.
\<close>

record date =
  year :: int
  month :: int
  day :: int

definition MINYEAR :: int where "MINYEAR = 1"
definition MAXYEAR :: int where "MAXYEAR = 9999"
definition MAXORDINAL :: int where "MAXORDINAL = 3652059"

definition DAYS_IN_MONTH :: "int list" where
  "DAYS_IN_MONTH = [-1, 31, 28, 31, 30, 31, 30, 31, 31, 30, 31, 30, 31]"

definition DAYS_BEFORE_MONTH :: "int list" where
  "DAYS_BEFORE_MONTH = [-1, 0, 31, 59, 90, 120, 151, 181, 212, 243, 273, 304, 334]"

definition is_leap :: "int \<Rightarrow> bool" where
  "is_leap y = (y mod 4 = 0 \<and> (y mod 100 \<noteq> 0 \<or> y mod 400 = 0))"

definition days_before_year :: "int \<Rightarrow> int" where
  "days_before_year y0 = (let y = y0 - 1 in y * 365 + y div 4 - y div 100 + y div 400)"

text \<open>The two tables are read at a month in 1..12 only: every caller checks it first.\<close>

definition days_in_month :: "int \<Rightarrow> int \<Rightarrow> int" where
  "days_in_month y m = (if m = 2 \<and> is_leap y then 29 else DAYS_IN_MONTH ! nat m)"

definition days_before_month :: "int \<Rightarrow> int \<Rightarrow> int" where
  "days_before_month y m = DAYS_BEFORE_MONTH ! nat m + (if m > 2 \<and> is_leap y then 1 else 0)"

definition ymd2ord :: "int \<Rightarrow> int \<Rightarrow> int \<Rightarrow> int" where
  "ymd2ord y m d = days_before_year y + days_before_month y m + d"

definition DI400Y :: int where "DI400Y = 146097"
definition DI100Y :: int where "DI100Y = 36524"
definition DI4Y :: int where "DI4Y = 1461"

definition ord2ymd :: "int \<Rightarrow> int \<times> int \<times> int" where
  "ord2ymd n0 =
     (let n = n0 - 1;
          n400 = n div DI400Y; n = n mod DI400Y;
          y = n400 * 400 + 1;
          n100 = n div DI100Y; n = n mod DI100Y;
          n4 = n div DI4Y; n = n mod DI4Y;
          n1 = n div 365; n = n mod 365;
          y = y + (n100 * 100 + n4 * 4 + n1)
      in if n1 = 4 \<or> n100 = 4 then (y - 1, 12, 31)
         else
           let leapyear = (n1 = 3 \<and> (n4 \<noteq> 24 \<or> n100 = 3));
               m = (n + 50) div 32;
               preceding = DAYS_BEFORE_MONTH ! nat m + (if m > 2 \<and> leapyear then 1 else 0)
           in if preceding > n
              then let m = m - 1;
                       preceding = preceding -
                         (DAYS_IN_MONTH ! nat m + (if m = 2 \<and> leapyear then 1 else 0))
                   in (y, m, n - preceding + 1)
              else (y, m, n - preceding + 1))"

text \<open>Decimal rendering of a number, for the message of an out-of-range year.\<close>

fun str_nat :: "nat \<Rightarrow> string" where
  "str_nat n =
     (if n < 10 then [char_of (48 + n)]
      else str_nat (n div 10) @ [char_of (48 + n mod 10)])"

declare str_nat.simps [simp del]

text \<open>
  \<open>date(year, month, day)\<close>: the constructor checks its fields, in this order. The years
  that reach it here are never negative.
\<close>

definition date_new :: "int \<Rightarrow> int \<Rightarrow> int \<Rightarrow> error + date" where
  "date_new y m d =
     (if \<not> (MINYEAR \<le> y \<and> y \<le> MAXYEAR)
      then Inl (ValueError (''year '' @ str_nat (nat y) @ '' is out of range''))
      else if \<not> (1 \<le> m \<and> m \<le> 12) then Inl (ValueError ''month must be in 1..12'')
      else if \<not> (1 \<le> d \<and> d \<le> days_in_month y m)
      then Inl (ValueError ''day is out of range for month'')
      else Inr \<lparr>year = y, month = m, day = d\<rparr>)"

definition toordinal :: "date \<Rightarrow> int" where
  "toordinal dt = ymd2ord (year dt) (month dt) (day dt)"

definition fromordinal :: "int \<Rightarrow> error + date" where
  "fromordinal n =
     (if n < 1 then Inl (ValueError ''ordinal must be >= 1'')
      else case ord2ymd n of (y, m, d) \<Rightarrow> date_new y m d)"

text \<open>\<open>date.weekday()\<close>: Monday is 0, Sunday is 6.\<close>

definition weekday :: "date \<Rightarrow> int" where
  "weekday dt = (toordinal dt + 6) mod 7"

text \<open>\<open>date.replace(year=y)\<close> builds a new date, so the fields are checked again.\<close>

definition date_replace_year :: "date \<Rightarrow> int \<Rightarrow> error + date" where
  "date_replace_year dt y = date_new y (month dt) (day dt)"

text \<open>\<open>dt + timedelta(days=n)\<close>.\<close>

definition date_add :: "date \<Rightarrow> int \<Rightarrow> error + date" where
  "date_add dt n =
     (let o1 = toordinal dt + n
      in if 0 < o1 \<and> o1 \<le> MAXORDINAL then fromordinal o1
         else Inl (OverflowError ''date value out of range''))"

text \<open>\<open>a < b\<close> on dates compares (year, month, day).\<close>

definition date_lt :: "date \<Rightarrow> date \<Rightarrow> bool" where
  "date_lt a b =
     (year a < year b \<or>
      (year a = year b \<and> (month a < month b \<or> (month a = month b \<and> day a < day b))))"

text \<open>\<open>(a - b).days\<close>.\<close>

definition date_sub_days :: "date \<Rightarrow> date \<Rightarrow> int" where
  "date_sub_days a b = toordinal a - toordinal b"

subsection \<open>strftime\<close>

text \<open>
  \<open>%d\<close> and \<open>%m\<close> are two digits, \<open>%Y\<close> is the year with century, four digits for the
  years 1000..9999. (For a year below 1000 the C library decides whether \<open>%Y\<close> is padded
  with zeros; the model pads, as the library reference documents.)
\<close>

definition zfill2 :: "int \<Rightarrow> pystr" where
  "zfill2 n = [48 + nat (n div 10 mod 10), 48 + nat (n mod 10)]"

definition zfill4 :: "int \<Rightarrow> pystr" where
  "zfill4 n = [48 + nat (n div 1000 mod 10), 48 + nat (n div 100 mod 10),
               48 + nat (n div 10 mod 10), 48 + nat (n mod 10)]"

definition strftime_Ymd :: "date \<Rightarrow> pystr" where
  "strftime_Ymd dt = zfill4 (year dt) @ [46] @ zfill2 (month dt) @ [46] @ zfill2 (day dt)"

definition strftime_dmY :: "date \<Rightarrow> pystr" where
  "strftime_dmY dt = zfill2 (day dt) @ [46] @ zfill2 (month dt) @ [46] @ zfill4 (year dt)"

subsection \<open>strptime with the format %d.%m.%Y\<close>

text \<open>
  \<open>datetime.strptime\<close> turns the format into the regular expression
  \<^verbatim>\<open>(?P<d>3[0-1]|[1-2]\d|0[1-9]|[1-9]| [1-9])\.(?P<m>1[0-2]|0[1-9]|[1-9])\.(?P<Y>\d\d\d\d)\<close>,
  matches it at the start of the string (\<open>re.match\<close>: the first match in the order of
  the alternatives, with backtracking), and then requires that the match ends where the
  string ends. A matcher returns every way to match a prefix, in that order, as pairs of
  the matched text and the rest. The flag IGNORECASE changes nothing: no character of the
  pattern has a case variant.
\<close>

type_synonym matcher = "pystr \<Rightarrow> (pystr \<times> pystr) list"

definition one_char :: "(nat \<Rightarrow> bool) \<Rightarrow> matcher" where
  "one_char P s = (case s of [] \<Rightarrow> [] | c # r \<Rightarrow> if P c then [([c], r)] else [])"

definition seq :: "matcher \<Rightarrow> matcher \<Rightarrow> matcher" where
  "seq p q s = concat (map (\<lambda>(a, r). map (\<lambda>(b, r'). (a @ b, r')) (q r)) (p s))"

definition alt :: "matcher \<Rightarrow> matcher \<Rightarrow> matcher" where
  "alt p q s = p s @ q s"

definition chr :: "nat \<Rightarrow> nat \<Rightarrow> bool" where
  "chr a c = (c = a)"

definition rng :: "nat \<Rightarrow> nat \<Rightarrow> nat \<Rightarrow> bool" where
  "rng lo hi c = (lo \<le> c \<and> c \<le> hi)"

definition re_digit :: "nat \<Rightarrow> bool" where
  "re_digit c = (Py_UNICODE_TODECIMAL c \<noteq> None)"

text \<open>48 is the digit 0, 57 the digit 9, 32 the space, 46 the full stop.\<close>

definition group_d :: matcher where
  "group_d =
     alt (seq (one_char (chr 51)) (one_char (rng 48 49)))
    (alt (seq (one_char (rng 49 50)) (one_char re_digit))
    (alt (seq (one_char (chr 48)) (one_char (rng 49 57)))
    (alt (one_char (rng 49 57))
         (seq (one_char (chr 32)) (one_char (rng 49 57))))))"

definition group_m :: matcher where
  "group_m =
     alt (seq (one_char (chr 49)) (one_char (rng 48 50)))
    (alt (seq (one_char (chr 48)) (one_char (rng 49 57)))
         (one_char (rng 49 57)))"

definition group_Y :: matcher where
  "group_Y = seq (one_char re_digit) (seq (one_char re_digit) (seq (one_char re_digit) (one_char re_digit)))"

text \<open>The groups d, m and Y of the first match, and the text after the match.\<close>

definition re_match :: "pystr \<Rightarrow> (pystr \<times> pystr \<times> pystr \<times> pystr) option" where
  "re_match s =
     (case [(d, m, y, r5).
              (d, r1) \<leftarrow> group_d s, (dot1, r2) \<leftarrow> one_char (chr 46) r1,
              (m, r3) \<leftarrow> group_m r2, (dot2, r4) \<leftarrow> one_char (chr 46) r3,
              (y, r5) \<leftarrow> group_Y r4] of
        [] \<Rightarrow> None
      | x # xs \<Rightarrow> Some x)"

text \<open>
  \<open>int(s)\<close> on the text of a group: leading spaces are skipped and every other
  character must be a decimal digit, of any script.
\<close>

fun int_digits :: "int \<Rightarrow> pystr \<Rightarrow> error + int" where
  "int_digits acc [] = Inr acc"
| "int_digits acc (c # cs) =
     (case Py_UNICODE_TODECIMAL c of
        None \<Rightarrow> Inl (ValueError ''invalid literal for int() with base 10'')
      | Some v \<Rightarrow> int_digits (10 * acc + v) cs)"

definition py_int :: "pystr \<Rightarrow> error + int" where
  "py_int s =
     (case dropWhile (\<lambda>c. c = 32) s of
        [] \<Rightarrow> Inl (ValueError ''invalid literal for int() with base 10'')
      | c # cs \<Rightarrow> int_digits 0 (c # cs))"

text \<open>
  \<open>datetime.strptime(s, "%d.%m.%Y").date()\<close>. The two messages of the matching step
  quote the input in the runtime; they are shortened here, since \<open>Birthday\<close> replaces
  the message of every \<open>ValueError\<close>.
\<close>

definition strptime_dmY :: "pystr \<Rightarrow> error + date" where
  "strptime_dmY s =
     (case re_match s of
        None \<Rightarrow> Inl (ValueError ''time data does not match format'')
      | Some (d, m, y, rest) \<Rightarrow>
          if rest \<noteq> [] then Inl (ValueError ''unconverted data remains'')
          else
            (case py_int y of Inl e \<Rightarrow> Inl e | Inr yy \<Rightarrow>
            (case py_int m of Inl e \<Rightarrow> Inl e | Inr mm \<Rightarrow>
            (case py_int d of Inl e \<Rightarrow> Inl e | Inr dd \<Rightarrow> date_new yy mm dd))))"

text \<open>\<open>Birthday.__init__\<close>: a \<open>ValueError\<close> of the parser is raised again with the
  class's own message. \<open>Birthday.__str__\<close> renders the date as DD.MM.YYYY.\<close>

definition Birthday :: "pystr \<Rightarrow> error + date Field" where
  "Birthday v =
     (case strptime_dmY v of
        Inl (ValueError msg) \<Rightarrow> Inl (ValueError ''Invalid date format. Use DD.MM.YYYY'')
      | Inl (OverflowError msg) \<Rightarrow> Inl (OverflowError msg)
      | Inr dt \<Rightarrow> Inr \<lparr>field_value = dt\<rparr>)"

definition str_Birthday :: "date Field \<Rightarrow> pystr" where
  "str_Birthday b = strftime_dmY (field_value b)"

section \<open>Records\<close>

text \<open>
  \<open>class Record\<close>: a name, the list of phones in insertion order, and an optional
  birthday. A method that mutates the record takes the record and returns the outcome of
  the call (the exception raised, or nothing) together with the record as the call leaves
  it.
\<close>

record Record =
  name :: "pystr Field"
  phones :: "pystr Field list"
  birthday :: "date Field option"

definition Record_init :: "pystr \<Rightarrow> Record" where
  "Record_init n = \<lparr>name = Name n, phones = [], birthday = None\<rparr>"

definition add_phone :: "pystr \<Rightarrow> Record \<Rightarrow> (error + unit) \<times> Record" where
  "add_phone number r =
     (case Phone number of
        Inl e \<Rightarrow> (Inl e, r)
      | Inr p \<Rightarrow> (Inr (), r\<lparr>phones := phones r @ [p]\<rparr>))"

text \<open>The loop of \<open>remove_phone\<close>, with \<open>updated_phones\<close> as accumulator.\<close>

fun remove_phone_loop :: "pystr \<Rightarrow> pystr Field list \<Rightarrow> pystr Field list \<Rightarrow> pystr Field list" where
  "remove_phone_loop number [] updated_phones = updated_phones"
| "remove_phone_loop number (phone # rest) updated_phones =
     remove_phone_loop number rest
       (if field_value phone \<noteq> number then updated_phones @ [phone] else updated_phones)"

definition remove_phone :: "pystr \<Rightarrow> Record \<Rightarrow> Record" where
  "remove_phone number r = r\<lparr>phones := remove_phone_loop number (phones r) []\<rparr>"

text \<open>The loop of \<open>edit_phone\<close>: it assigns to the first phone that matches and stops.\<close>

fun edit_phone_loop :: "pystr \<Rightarrow> pystr \<Rightarrow> pystr Field list \<Rightarrow> pystr Field list" where
  "edit_phone_loop old_number new_number [] = []"
| "edit_phone_loop old_number new_number (phone # rest) =
     (if field_value phone = old_number
      then phone\<lparr>field_value := new_number\<rparr> # rest
      else phone # edit_phone_loop old_number new_number rest)"

definition edit_phone :: "pystr \<Rightarrow> pystr \<Rightarrow> Record \<Rightarrow> (error + unit) \<times> Record" where
  "edit_phone old_number new_number r =
     (if \<not> list_ex (\<lambda>phone. field_value phone = old_number) (phones r)
      then (Inl (ValueError ''Old phone number is not exist''), r)
      else if length new_number \<noteq> 10 \<or> \<not> isdigit new_number
      then (Inl (ValueError ''New phone number must be 10 digits''), r)
      else (Inr (), r\<lparr>phones := edit_phone_loop old_number new_number (phones r)\<rparr>))"

fun find_phone_loop :: "pystr \<Rightarrow> pystr Field list \<Rightarrow> pystr Field option" where
  "find_phone_loop number [] = None"
| "find_phone_loop number (phone # rest) =
     (if field_value phone = number then Some phone else find_phone_loop number rest)"

definition find_phone :: "pystr \<Rightarrow> Record \<Rightarrow> pystr Field option" where
  "find_phone number r = find_phone_loop number (phones r)"

definition add_birthday :: "pystr \<Rightarrow> Record \<Rightarrow> (error + unit) \<times> Record" where
  "add_birthday v r =
     (case birthday r of
        None \<Rightarrow>
          (case Birthday v of
             Inl e \<Rightarrow> (Inl e, r)
           | Inr b \<Rightarrow> (Inr (), r\<lparr>birthday := Some b\<rparr>))
      | Some b \<Rightarrow> (Inl (ValueError ''Only one birthday is allowed per record.''), r))"

section \<open>The address book\<close>

text \<open>
  \<open>class AddressBook(UserDict)\<close> keeps its records in the dict \<open>data\<close>. A Python dict
  iterates in insertion order: assigning to a key that is present keeps the key's place,
  assigning to a new key appends it, and a key deleted and assigned again is appended. The
  dict is modelled as the list of its items in iteration order.
\<close>

type_synonym AddressBook = "(pystr \<times> Record) list"

fun dict_setitem :: "pystr \<Rightarrow> Record \<Rightarrow> AddressBook \<Rightarrow> AddressBook" where
  "dict_setitem k v [] = [(k, v)]"
| "dict_setitem k v ((k', v') # items) =
     (if k' = k then (k', v) # items else (k', v') # dict_setitem k v items)"

fun dict_get :: "AddressBook \<Rightarrow> pystr \<Rightarrow> Record option" where
  "dict_get [] k = None"
| "dict_get ((k', v') # items) k = (if k' = k then Some v' else dict_get items k)"

fun dict_delitem :: "pystr \<Rightarrow> AddressBook \<Rightarrow> AddressBook" where
  "dict_delitem k [] = []"
| "dict_delitem k ((k', v') # items) =
     (if k' = k then items else (k', v') # dict_delitem k items)"

definition dict_contains :: "AddressBook \<Rightarrow> pystr \<Rightarrow> bool" where
  "dict_contains book k = list_ex (\<lambda>(k', v'). k' = k) book"

definition dict_keys :: "AddressBook \<Rightarrow> pystr list" where
  "dict_keys book = map fst book"

definition dict_values :: "AddressBook \<Rightarrow> Record list" where
  "dict_values book = map snd book"

definition AddressBook_init :: AddressBook where
  "AddressBook_init = []"

definition add_record :: "Record \<Rightarrow> AddressBook \<Rightarrow> AddressBook" where
  "add_record r book = dict_setitem (field_value (name r)) r book"

definition AddressBook_find :: "AddressBook \<Rightarrow> pystr \<Rightarrow> Record option" where
  "AddressBook_find book n = dict_get book n"

definition AddressBook_delete :: "pystr \<Rightarrow> AddressBook \<Rightarrow> AddressBook" where
  "AddressBook_delete n book = (if dict_contains book n then dict_delitem n book else book)"

text \<open>A history of directory operations, run from left to right.\<close>

datatype book_op = AddRecord Record | Delete pystr

fun apply_op :: "AddressBook \<Rightarrow> book_op \<Rightarrow> AddressBook" where
  "apply_op book (AddRecord r) = add_record r book"
| "apply_op book (Delete n) = AddressBook_delete n book"

definition run_ops :: "book_op list \<Rightarrow> AddressBook \<Rightarrow> AddressBook" where
  "run_ops ops book = foldl apply_op book ops"

section \<open>Upcoming birthdays\<close>

text \<open>
  The command \<open>birthdays\<close>, with the date returned by \<open>datetime.now().date()\<close> as
  the parameter \<open>today\<close>. \<open>birthday_entry\<close> is the body of the loop for one record: it
  raises, appends nothing, or appends one entry (the name and the formatted date).
  \<open>birthday_list\<close> is the function up to the end of the loop; an exception in any
  iteration ends the call, and the decorator \<open>input_error\<close> then returns its message
  instead of displaying anything.
\<close>

definition birthday_entry :: "date \<Rightarrow> Record \<Rightarrow> error + (pystr \<times> pystr) option" where
  "birthday_entry today r =
     (case birthday r of
        None \<Rightarrow> Inr None
      | Some b \<Rightarrow>
          (case date_replace_year (field_value b) (year today) of
             Inl e \<Rightarrow> Inl e
           | Inr this_year \<Rightarrow>
               (case (if date_lt this_year today
                      then date_replace_year this_year (year this_year + 1)
                      else Inr this_year) of
                  Inl e \<Rightarrow> Inl e
                | Inr birthday_this_year \<Rightarrow>
                    (let days_to_birthday = date_sub_days birthday_this_year today
                     in if 0 \<le> days_to_birthday \<and> days_to_birthday \<le> 7
                        then
                          (case (if weekday birthday_this_year \<ge> 5
                                 then date_add birthday_this_year
                                        ((7 - weekday birthday_this_year) mod 7)
                                 else Inr birthday_this_year) of
                             Inl e \<Rightarrow> Inl e
                           | Inr congratulation_date \<Rightarrow>
                               Inr (Some (field_value (name r),
                                          strftime_Ymd congratulation_date)))
                        else Inr None))))"

fun birthdays_loop ::
  "date \<Rightarrow> Record list \<Rightarrow> (pystr \<times> pystr) list \<Rightarrow> error + (pystr \<times> pystr) list" where
  "birthdays_loop today [] birthday_list = Inr birthday_list"
| "birthdays_loop today (r # rest) birthday_list =
     (case birthday_entry today r of
        Inl e \<Rightarrow> Inl e
      | Inr None \<Rightarrow> birthdays_loop today rest birthday_list
      | Inr (Some entry) \<Rightarrow> birthdays_loop today rest (birthday_list @ [entry]))"

definition birthday_list :: "AddressBook \<Rightarrow> date \<Rightarrow> error + (pystr \<times> pystr) list" where
  "birthday_list book today =
     (case date_add today 7 of
        Inl e \<Rightarrow> Inl e
      | Inr next_week \<Rightarrow> birthdays_loop today (dict_values book) [])"

text \<open>The message that \<open>birthdays\<close> displays: one line per entry, or a fixed sentence.\<close>

fun join_lines :: "pystr list \<Rightarrow> pystr" where
  "join_lines [] = []"
| "join_lines [l] = l"
| "join_lines (l # ls) = l @ [10] @ join_lines ls"

definition birthdays :: "AddressBook \<Rightarrow> date \<Rightarrow> error + pystr" where
  "birthdays book today =
     (case birthday_list book today of
        Inl e \<Rightarrow> Inl e
      | Inr entries \<Rightarrow>
          Inr (if entries \<noteq> []
               then ascii ''Upcoming birthdays in the next week:'' @ [10] @
                    join_lines (map (\<lambda>(n, d). n @ ascii '': '' @ d) entries)
               else ascii ''No birthdays in the next week.''))"

section \<open>Notions of the specification\<close>

text \<open>
  The definitions of this section follow the words of the specification, not the code;
  the theorems compare them with the code.
\<close>

text \<open>A phone number in the sense of the specification: exactly ten ASCII decimal digits.\<close>

definition decimal_digit :: "nat \<Rightarrow> bool" where
  "decimal_digit c = (48 \<le> c \<and> c \<le> 57)"

definition ten_decimal_digits :: "pystr \<Rightarrow> bool" where
  "ten_decimal_digits raw = (length raw = 10 \<and> list_all decimal_digit raw)"

text \<open>The names of a list in the order of their first occurrence.\<close>

fun first_insertions :: "pystr list \<Rightarrow> pystr list" where
  "first_insertions [] = []"
| "first_insertions (k # ks) = k # removeAll k (first_insertions ks)"

fun added_names :: "book_op list \<Rightarrow> pystr list" where
  "added_names [] = []"
| "added_names (AddRecord r # ops) = field_value (name r) # added_names ops"
| "added_names (Delete n # ops) = added_names ops"

text \<open>
  The order the specification gives to \<open>all()\<close>: the names present after the history,
  each at the place of its first-ever insertion.
\<close>

definition first_ever_order :: "book_op list \<Rightarrow> pystr list" where
  "first_ever_order ops =
     filter (\<lambda>k. k \<in> set (dict_keys (run_ops ops AddressBook_init)))
       (first_insertions (added_names ops))"

text \<open>
  The order of the names alone: adding under a present name keeps its place, adding under
  a new name appends it, deleting removes it.
\<close>

fun key_order_step :: "pystr list \<Rightarrow> book_op \<Rightarrow> pystr list" where
  "key_order_step ks (AddRecord r) =
     (if field_value (name r) \<in> set ks then ks else ks @ [field_value (name r)])"
| "key_order_step ks (Delete n) = removeAll n ks"

text \<open>Every item of the dict is stored under the name of its record.\<close>

definition keyed_by_name :: "AddressBook \<Rightarrow> bool" where
  "keyed_by_name book = (\<forall>(k, r) \<in> set book. field_value (name r) = k)"

text \<open>The invariant of \<open>datetime.date\<close>: what the constructor checks.\<close>

definition date_valid :: "date \<Rightarrow> bool" where
  "date_valid dt =
     (MINYEAR \<le> year dt \<and> year dt \<le> MAXYEAR \<and> 1 \<le> month dt \<and> month dt \<le> 12 \<and>
      1 \<le> day dt \<and> day dt \<le> days_in_month (year dt) (month dt))"

text \<open>
  The scheduler in the words of the specification. \<open>next_birthday\<close> replaces the year
  of the birthday with the year of today and rolls forward one year when that date is
  strictly before today; a record is in the window when it has a birthday and the day
  difference from today is between 0 and 7.
\<close>

definition next_birthday :: "date \<Rightarrow> date \<Rightarrow> date" where
  "next_birthday today b =
     (let this_year = b\<lparr>year := year today\<rparr>
      in if date_lt this_year today then this_year\<lparr>year := year this_year + 1\<rparr>
         else this_year)"

definition days_to_birthday :: "date \<Rightarrow> date \<Rightarrow> int" where
  "days_to_birthday today b = toordinal (next_birthday today b) - toordinal today"

definition in_window :: "date \<Rightarrow> Record \<Rightarrow> bool" where
  "in_window today r =
     (case birthday r of
        None \<Rightarrow> False
      | Some b \<Rightarrow> 0 \<le> days_to_birthday today (field_value b) \<and>
                  days_to_birthday today (field_value b) \<le> 7)"

text \<open>The date \<open>n\<close> days after a date.\<close>

definition days_after :: "date \<Rightarrow> int \<Rightarrow> date" where
  "days_after dt n =
     (case ord2ymd (toordinal dt + n) of (y, m, d) \<Rightarrow> \<lparr>year = y, month = m, day = d\<rparr>)"

text \<open>A Saturday moves forward by two days, a Sunday by one day.\<close>

definition off_weekend :: "date \<Rightarrow> date" where
  "off_weekend dt =
     (if weekday dt = 5 then days_after dt 2
      else if weekday dt = 6 then days_after dt 1
      else dt)"

definition upcoming_entry :: "date \<Rightarrow> Record \<Rightarrow> (pystr \<times> pystr) option" where
  "upcoming_entry today r =
     (case birthday r of
        None \<Rightarrow> None
      | Some b \<Rightarrow>
          if 0 \<le> days_to_birthday today (field_value b) \<and>
             days_to_birthday today (field_value b) \<le> 7
          then Some (field_value (name r),
                     strftime_Ymd (off_weekend (next_birthday today (field_value b))))
          else None)"

definition upcoming :: "date \<Rightarrow> Record list \<Rightarrow> (pystr \<times> pystr) list" where
  "upcoming today recs = List.map_filter (upcoming_entry today) recs"

text \<open>
  The birthday exists in a year when its month and day, with that year, make a date. The
  scheduler can place a birthday when it exists in the year of today and, if it is before
  today there, in the next year as well.
\<close>

definition exists_in_year :: "date \<Rightarrow> int \<Rightarrow> bool" where
  "exists_in_year b y = date_valid (b\<lparr>year := y\<rparr>)"

definition placeable :: "date \<Rightarrow> date \<Rightarrow> bool" where
  "placeable today b =
     (exists_in_year b (year today) \<and>
      (date_lt (b\<lparr>year := year today\<rparr>) today \<longrightarrow> exists_in_year b (year today + 1)))"

definition all_placeable :: "date \<Rightarrow> Record list \<Rightarrow> bool" where
  "all_placeable today recs =
     list_all (\<lambda>r. case birthday r of None \<Rightarrow> True | Some b \<Rightarrow> placeable today (field_value b)) recs"

text \<open>
  The texts of a day and of a month in a date string: two digits, or one digit without
  the leading zero; a day of one digit may also follow a space.
\<close>

definition day_text :: "pystr \<Rightarrow> int \<Rightarrow> bool" where
  "day_text s d =
     (1 \<le> d \<and> d \<le> 31 \<and>
      (s = zfill2 d \<or> (d \<le> 9 \<and> (s = [48 + nat d] \<or> s = [32, 48 + nat d]))))"

definition month_text :: "pystr \<Rightarrow> int \<Rightarrow> bool" where
  "month_text s m = (1 \<le> m \<and> m \<le> 12 \<and> (s = zfill2 m \<or> (m \<le> 9 \<and> s = [48 + nat m])))"

section \<open>Example data\<close>

text \<open>Ten times the character SUPERSCRIPT TWO.\<close>

definition superscript_twos :: pystr where
  "superscript_twos = [178, 178, 178, 178, 178, 178, 178, 178, 178, 178]"

definition phone_1 :: "pystr Field" where
  "phone_1 = \<lparr>field_value = ascii ''1111111111''\<rparr>"

definition phone_2 :: "pystr Field" where
  "phone_2 = \<lparr>field_value = ascii ''2222222222''\<rparr>"

definition rec_ann :: Record where
  "rec_ann = \<lparr>name = Name (ascii ''Ann''), phones = [phone_1, phone_2, phone_1], birthday = None\<rparr>"

definition rec_ann2 :: Record where
  "rec_ann2 = \<lparr>name = Name (ascii ''Ann''), phones = [phone_2], birthday = None\<rparr>"

definition rec_bob :: Record where
  "rec_bob = \<lparr>name = Name (ascii ''Bob''), phones = [], birthday = None\<rparr>"

text \<open>
  Records made the way the commands make them: \<open>Record(name)\<close>, then
  \<open>add_birthday\<close>.
\<close>

definition rec_with_birthday :: "string \<Rightarrow> string \<Rightarrow> Record" where
  "rec_with_birthday n b = snd (add_birthday (ascii b) (Record_init (ascii n)))"

text \<open>The scenario of the specification: Monday 2024.06.10, with Ann, Bob and Cid.\<close>

definition today_scenario :: date where
  "today_scenario = \<lparr>year = 2024, month = 6, day = 10\<rparr>"

definition book_scenario :: AddressBook where
  "book_scenario =
     add_record (rec_with_birthday ''Cid'' ''01.01.1990'')
       (add_record (rec_with_birthday ''Bob'' ''15.06.1995'')
          (add_record (rec_with_birthday ''Ann'' ''12.06.1990'') AddressBook_init))"

text \<open>A book that also holds a birthday on 29 February, read on 2023.06.10.\<close>

definition today_2023 :: date where
  "today_2023 = \<lparr>year = 2023, month = 6, day = 10\<rparr>"

definition book_leap :: AddressBook where
  "book_leap =
     add_record (rec_with_birthday ''Eve'' ''29.02.2000'')
       (add_record (rec_with_birthday ''Ann'' ''12.06.1990'') AddressBook_init)"

section \<open>Phones\<close>

lemma in_ranges_iff: "in_ranges rs c \<longleftrightarrow> (\<exists>(lo, hi) \<in> set rs. lo \<le> c \<and> c \<le> hi)"
  by (simp add: in_ranges_def list_ex_iff)

lemma ISDIGIT_ascii:
  assumes "c < 128"
  shows "Py_UNICODE_ISDIGIT c \<longleftrightarrow> 48 \<le> c \<and> c \<le> 57"
  using assms unfolding Py_UNICODE_ISDIGIT_def in_ranges_def DIGIT_RANGES_def
  by simp

lemma ISDIGIT_ascii_digit: "48 \<le> c \<Longrightarrow> c \<le> 57 \<Longrightarrow> Py_UNICODE_ISDIGIT c"
  using ISDIGIT_ascii [of c] by simp

lemma Phone_Inr_iff: "Phone v = Inr p \<longleftrightarrow> length v = 10 \<and> isdigit v \<and> p = \<lparr>field_value = v\<rparr>"
  by (auto simp: Phone_def)

lemma Phone_Inl_iff:
  "Phone v = Inl e \<longleftrightarrow>
     (length v \<noteq> 10 \<or> \<not> isdigit v) \<and> e = ValueError ''Phone number must be 10 digits''"
  by (auto simp: Phone_def)

lemma Phone_round_trip: "Phone v = Inr p \<Longrightarrow> str_Field p = v"
  by (auto simp: Phone_Inr_iff str_Field_def)

lemma Phone_ascii_iff:
  assumes "\<forall>c \<in> set v. c < 128"
  shows "(\<exists>p. Phone v = Inr p) \<longleftrightarrow> length v = 10 \<and> (\<forall>c \<in> set v. 48 \<le> c \<and> c \<le> 57)"
proof -
  have "list_all Py_UNICODE_ISDIGIT v \<longleftrightarrow> (\<forall>c \<in> set v. 48 \<le> c \<and> c \<le> 57)"
    using assms by (auto simp: list_all_iff ISDIGIT_ascii)
  then show ?thesis
    by (auto simp: Phone_Inr_iff isdigit_def)
qed

section \<open>The loops over the phones\<close>

lemma remove_phone_loop_filter:
  "remove_phone_loop number ps acc = acc @ filter (\<lambda>p. field_value p \<noteq> number) ps"
  by (induction ps arbitrary: acc) auto

lemma find_phone_loop_None:
  "find_phone_loop number ps = None \<longleftrightarrow> (\<forall>p \<in> set ps. field_value p \<noteq> number)"
  by (induction ps) auto

lemma find_phone_loop_Some:
  "find_phone_loop number ps = Some p \<Longrightarrow>
     \<exists>pre post. ps = pre @ p # post \<and> field_value p = number \<and>
       (\<forall>q \<in> set pre. field_value q \<noteq> number)"
proof (induction ps)
  case Nil
  then show ?case by simp
next
  case (Cons a ps)
  show ?case
  proof (cases "field_value a = number")
    case True
    with Cons.prems have "a = p" by simp
    with True have "a # ps = [] @ p # ps \<and> field_value p = number" by simp
    then show ?thesis by fastforce
  next
    case False
    with Cons obtain pre post where
      "ps = pre @ p # post" "field_value p = number" "\<forall>q \<in> set pre. field_value q \<noteq> number"
      by auto
    with False have "a # ps = (a # pre) @ p # post \<and> field_value p = number \<and>
        (\<forall>q \<in> set (a # pre). field_value q \<noteq> number)"
      by simp
    then show ?thesis by blast
  qed
qed

lemma edit_phone_loop_first:
  assumes "\<exists>p \<in> set ps. field_value p = old_number"
  shows "\<exists>pre q post. ps = pre @ q # post \<and> (\<forall>p \<in> set pre. field_value p \<noteq> old_number) \<and>
           field_value q = old_number \<and>
           edit_phone_loop old_number new_number ps = pre @ q\<lparr>field_value := new_number\<rparr> # post"
  using assms
proof (induction ps)
  case Nil
  then show ?case by simp
next
  case (Cons a ps)
  show ?case
  proof (cases "field_value a = old_number")
    case True
    then have "a # ps = [] @ a # ps \<and> (\<forall>p \<in> set []. field_value p \<noteq> old_number) \<and>
        field_value a = old_number \<and>
        edit_phone_loop old_number new_number (a # ps) = [] @ a\<lparr>field_value := new_number\<rparr> # ps"
      by simp
    then show ?thesis by blast
  next
    case False
    with Cons.prems have "\<exists>p \<in> set ps. field_value p = old_number" by auto
    with Cons.IH obtain pre q post where h:
      "ps = pre @ q # post" "\<forall>p \<in> set pre. field_value p \<noteq> old_number"
      "field_value q = old_number"
      "edit_phone_loop old_number new_number ps = pre @ q\<lparr>field_value := new_number\<rparr> # post"
      by blast
    with False have "a # ps = (a # pre) @ q # post \<and>
        (\<forall>p \<in> set (a # pre). field_value p \<noteq> old_number) \<and> field_value q = old_number \<and>
        edit_phone_loop old_number new_number (a # ps) =
          (a # pre) @ q\<lparr>field_value := new_number\<rparr> # post"
      by simp
    then show ?thesis by blast
  qed
qed

lemma edit_phone_name: "name (snd (edit_phone old_number new_number r)) = name r"
  by (simp add: edit_phone_def)

lemma add_phone_name: "name (snd (add_phone number r)) = name r"
  by (simp add: add_phone_def split: sum.splits)

lemma remove_phone_name: "name (remove_phone number r) = name r"
  by (simp add: remove_phone_def)

lemma add_birthday_name: "name (snd (add_birthday v r)) = name r"
  by (simp add: add_birthday_def split: option.splits sum.splits)

section \<open>The dict of the address book\<close>

lemma dict_keys_setitem:
  "dict_keys (dict_setitem k v book) =
     (if k \<in> set (dict_keys book) then dict_keys book else dict_keys book @ [k])"
  by (induction book) (force simp: dict_keys_def)+

lemma dict_get_setitem:
  "dict_get (dict_setitem k v book) k' = (if k' = k then Some v else dict_get book k')"
  by (induction book) auto

lemma dict_setitem_twice: "dict_setitem k v2 (dict_setitem k v1 book) = dict_setitem k v2 book"
  by (induction book) auto

lemma dict_contains_keys: "dict_contains book k \<longleftrightarrow> k \<in> set (dict_keys book)"
  by (induction book) (auto simp: dict_contains_def dict_keys_def)

lemma dict_get_None: "dict_get book k = None \<longleftrightarrow> k \<notin> set (dict_keys book)"
  by (induction book) (force simp: dict_keys_def)+

lemma dict_get_Some_mem: "dict_get book k = Some r \<Longrightarrow> (k, r) \<in> set book"
  by (induction book) (auto split: if_splits)

lemma dict_keys_delitem: "dict_keys (dict_delitem k book) = remove1 k (dict_keys book)"
  by (induction book) (auto simp: dict_keys_def)

lemma dict_delitem_absent: "k \<notin> set (dict_keys book) \<Longrightarrow> dict_delitem k book = book"
  by (induction book) (auto simp: dict_keys_def)

lemma set_dict_delitem: "set (dict_delitem k book) \<subseteq> set book"
  by (induction book) (auto split: if_splits)

lemma dict_get_delitem:
  "distinct (dict_keys book) \<Longrightarrow>
     dict_get (dict_delitem k book) k' = (if k' = k then None else dict_get book k')"
proof (induction book)
  case Nil
  then show ?case by simp
next
  case (Cons item book)
  obtain a v where item: "item = (a, v)" by (cases item)
  from Cons.prems item have absent: "a \<notin> set (dict_keys book)" and
    dist: "distinct (dict_keys book)"
    by (simp_all add: dict_keys_def)
  show ?case
  proof (cases "a = k")
    case True
    with absent have "dict_get book k = None" by (simp add: dict_get_None)
    with True item show ?thesis by simp
  next
    case False
    with item Cons.IH [OF dist] show ?thesis by auto
  qed
qed

lemma set_dict_setitem: "set (dict_setitem k v book) \<subseteq> insert (k, v) (set book)"
  by (induction book) (auto split: if_splits)

lemma distinct_add_record: "distinct (dict_keys book) \<Longrightarrow> distinct (dict_keys (add_record r book))"
  by (simp add: add_record_def dict_keys_setitem)

lemma distinct_delete:
  "distinct (dict_keys book) \<Longrightarrow> distinct (dict_keys (AddressBook_delete n book))"
  by (simp add: AddressBook_delete_def dict_keys_delitem)

lemma distinct_apply_op: "distinct (dict_keys book) \<Longrightarrow> distinct (dict_keys (apply_op book x))"
  by (cases x) (simp_all add: distinct_add_record distinct_delete)

lemma distinct_foldl_apply_op:
  "distinct (dict_keys book) \<Longrightarrow> distinct (dict_keys (foldl apply_op book ops))"
  by (induction ops arbitrary: book) (simp_all add: distinct_apply_op)

lemma distinct_run_ops: "distinct (dict_keys (run_ops ops AddressBook_init))"
  unfolding run_ops_def AddressBook_init_def
  by (rule distinct_foldl_apply_op) (simp add: dict_keys_def)

lemma keyed_by_name_apply_op: "keyed_by_name book \<Longrightarrow> keyed_by_name (apply_op book x)"
proof (cases x)
  case (AddRecord r)
  assume "keyed_by_name book"
  with set_dict_setitem [of "field_value (name r)" r book] AddRecord show ?thesis
    by (auto simp: keyed_by_name_def add_record_def)
next
  case (Delete n)
  assume "keyed_by_name book"
  with set_dict_delitem [of n book] Delete show ?thesis
    by (auto simp: keyed_by_name_def AddressBook_delete_def)
qed

lemma keyed_by_name_foldl:
  "keyed_by_name book \<Longrightarrow> keyed_by_name (foldl apply_op book ops)"
  by (induction ops arbitrary: book) (simp_all add: keyed_by_name_apply_op)

lemma keyed_by_name_run_ops: "keyed_by_name (run_ops ops AddressBook_init)"
  unfolding run_ops_def AddressBook_init_def
  by (rule keyed_by_name_foldl) (simp add: keyed_by_name_def)

section \<open>The calendar\<close>

lemma month_cases:
  assumes "1 \<le> m" "m \<le> (12::int)"
  obtains "m = 1" | "m = 2" | "m = 3" | "m = 4" | "m = 5" | "m = 6"
    | "m = 7" | "m = 8" | "m = 9" | "m = 10" | "m = 11" | "m = 12"
proof -
  from assms have "m = 1 \<or> m = 2 \<or> m = 3 \<or> m = 4 \<or> m = 5 \<or> m = 6 \<or> m = 7 \<or> m = 8 \<or> m = 9 \<or>
    m = 10 \<or> m = 11 \<or> m = 12" by arith
  with that show thesis by blast
qed

lemma days_in_month_num:
  "days_in_month y 1 = 31" "days_in_month y 2 = (if is_leap y then 29 else 28)"
  "days_in_month y 3 = 31" "days_in_month y 4 = 30" "days_in_month y 5 = 31"
  "days_in_month y 6 = 30" "days_in_month y 7 = 31" "days_in_month y 8 = 31"
  "days_in_month y 9 = 30" "days_in_month y 10 = 31" "days_in_month y 11 = 30"
  "days_in_month y 12 = 31"
  by (simp_all add: days_in_month_def DAYS_IN_MONTH_def)

lemma days_before_month_num:
  "days_before_month y 1 = 0" "days_before_month y 2 = 31"
  "days_before_month y 3 = 59 + (if is_leap y then 1 else 0)"
  "days_before_month y 4 = 90 + (if is_leap y then 1 else 0)"
  "days_before_month y 5 = 120 + (if is_leap y then 1 else 0)"
  "days_before_month y 6 = 151 + (if is_leap y then 1 else 0)"
  "days_before_month y 7 = 181 + (if is_leap y then 1 else 0)"
  "days_before_month y 8 = 212 + (if is_leap y then 1 else 0)"
  "days_before_month y 9 = 243 + (if is_leap y then 1 else 0)"
  "days_before_month y 10 = 273 + (if is_leap y then 1 else 0)"
  "days_before_month y 11 = 304 + (if is_leap y then 1 else 0)"
  "days_before_month y 12 = 334 + (if is_leap y then 1 else 0)"
  by (simp_all add: days_before_month_def DAYS_BEFORE_MONTH_def)

lemma days_in_month_bounds:
  assumes "1 \<le> m" "m \<le> 12"
  shows "28 \<le> days_in_month y m \<and> days_in_month y m \<le> 31"
  using assms by (cases m rule: month_cases) (simp_all add: days_in_month_num)

lemma days_before_month_plus_day:
  assumes "1 \<le> m" "m \<le> 12" "1 \<le> d" "d \<le> days_in_month y m"
  shows "1 \<le> days_before_month y m + d \<and>
         days_before_month y m + d \<le> (if is_leap y then 366 else 365)"
  using assms
  by (cases m rule: month_cases)
    (auto simp: days_in_month_num days_before_month_num split: if_splits)

lemma div_pred:
  fixes y k :: int
  assumes "0 < k"
  shows "(y - 1) div k = y div k - (if y mod k = 0 then 1 else 0)"
proof (cases "y mod k = 0")
  case True
  have "y = k * (y div k) + y mod k" by simp
  with True have "y - 1 = k * (y div k - 1) + (k - 1)"
    by (simp add: algebra_simps)
  with assms have "(y - 1) div k = y div k - 1"
    by (intro int_div_pos_eq [where r = "k - 1"]) simp_all
  with True show ?thesis by simp
next
  case False
  have e: "y = k * (y div k) + y mod k" by simp
  from assms have "0 \<le> y mod k" "y mod k < k" by simp_all
  with False have r: "0 \<le> y mod k - 1" "y mod k - 1 < k" by simp_all
  from e have "y - 1 = k * (y div k) + (y mod k - 1)" by simp
  with r have "(y - 1) div k = y div k"
    by (intro int_div_pos_eq [where r = "y mod k - 1"]) simp_all
  with False show ?thesis by simp
qed

lemma days_before_year_next:
  "days_before_year (y + 1) = days_before_year y + (if is_leap y then 366 else 365)"
proof -
  define q4 q100 q400 where "q4 = y div 4" and "q100 = y div 100" and "q400 = y div 400"
  define p4 p100 p400 where "p4 = (y - 1) div 4" and "p100 = (y - 1) div 100"
    and "p400 = (y - 1) div 400"
  have p: "p4 = q4 - (if y mod 4 = 0 then 1 else 0)"
    "p100 = q100 - (if y mod 100 = 0 then 1 else 0)"
    "p400 = q400 - (if y mod 400 = 0 then 1 else 0)"
    unfolding p4_def p100_def p400_def q4_def q100_def q400_def
    by (rule div_pred, simp)+
  have m1: "y mod 400 = 0 \<Longrightarrow> y mod 100 = 0"
    using dvd_trans [of 100 400 y] by (simp add: mod_eq_0_iff_dvd)
  have m2: "y mod 100 = 0 \<Longrightarrow> y mod 4 = 0"
    using dvd_trans [of 4 100 y] by (simp add: mod_eq_0_iff_dvd)
  have a: "days_before_year (y + 1) = y * 365 + q4 - q100 + q400"
    by (simp add: days_before_year_def q4_def q100_def q400_def)
  have b: "days_before_year y = (y - 1) * 365 + p4 - p100 + p400"
    by (simp add: days_before_year_def Let_def p4_def p100_def p400_def)
  show ?thesis
    unfolding a b p is_leap_def using m1 m2
    by (cases "y mod 4 = 0"; cases "y mod 100 = 0"; cases "y mod 400 = 0") simp_all
qed

lemma days_before_year_mono_nat: "days_before_year y \<le> days_before_year (y + int k)"
proof (induction k)
  case 0
  then show ?case by simp
next
  case (Suc k)
  have "days_before_year (y + int k) \<le> days_before_year (y + int k + 1)"
    by (simp add: days_before_year_next)
  with Suc show ?case by (simp add: ac_simps)
qed

lemma days_before_year_mono: "y \<le> y' \<Longrightarrow> days_before_year y \<le> days_before_year y'"
  using days_before_year_mono_nat [of y "nat (y' - y)"] by simp

lemma days_before_year_decomp:
  assumes "0 \<le> b" "b \<le> 3" "0 \<le> c" "c \<le> 24" "0 \<le> e" "e \<le> 3"
  shows "days_before_year (400 * a + 100 * b + 4 * c + e + 1) =
           146097 * a + 36524 * b + 1461 * c + 365 * e"
proof -
  let ?y = "400 * a + 100 * b + 4 * c + e"
  have d4: "?y div 4 = 100 * a + 25 * b + c"
    using assms by (intro int_div_pos_eq [where r = e]) simp_all
  have d100: "?y div 100 = 4 * a + b"
    using assms by (intro int_div_pos_eq [where r = "4 * c + e"]) simp_all
  have d400: "?y div 400 = a"
    using assms by (intro int_div_pos_eq [where r = "100 * b + 4 * c + e"]) simp_all
  show ?thesis
    by (simp add: days_before_year_def d4 d100 d400)
qed

lemma is_leap_decomp:
  assumes "0 \<le> b" "b \<le> 3" "0 \<le> c" "c \<le> 24" "0 \<le> e" "e \<le> 3"
  shows "is_leap (400 * a + 100 * b + 4 * c + e + 1) \<longleftrightarrow> e = 3 \<and> (c \<noteq> 24 \<or> b = 3)"
proof -
  let ?y = "400 * a + 100 * b + 4 * c + e + 1"
  show ?thesis
  proof (cases "e = 3")
    case False
    with assms have "?y mod 4 = e + 1"
      by (intro int_mod_pos_eq [where q = "100 * a + 25 * b + c"]) simp_all
    with False assms show ?thesis by (simp add: is_leap_def)
  next
    case True
    then have m4: "?y mod 4 = 0"
      by (intro int_mod_pos_eq [where q = "100 * a + 25 * b + c + 1"]) simp_all
    show ?thesis
    proof (cases "c = 24")
      case False
      with assms True have "?y mod 100 = 4 * c + 4"
        by (intro int_mod_pos_eq [where q = "4 * a + b"]) simp_all
      with False True m4 assms show ?thesis by (simp add: is_leap_def)
    next
      case c: True
      with True have m100: "?y mod 100 = 0"
        by (intro int_mod_pos_eq [where q = "4 * a + b + 1"]) simp_all
      show ?thesis
      proof (cases "b = 3")
        case True
        with c \<open>e = 3\<close> have "?y mod 400 = 0"
          by (intro int_mod_pos_eq [where q = "a + 1"]) simp_all
        with True c \<open>e = 3\<close> m4 show ?thesis by (simp add: is_leap_def)
      next
        case False
        with c \<open>e = 3\<close> assms have "?y mod 400 = 100 * b + 100"
          by (intro int_mod_pos_eq [where q = a]) simp_all
        with False c \<open>e = 3\<close> m4 m100 assms show ?thesis by (simp add: is_leap_def)
      qed
    qed
  qed
qed

lemma month_of_offset:
  fixes r :: int
  assumes "0 \<le> r" "r \<le> 364"
    and "(let m = (r + 50) div 32;
              preceding = DAYS_BEFORE_MONTH ! nat m + (if m > 2 \<and> leapyear then 1 else 0)
          in if preceding > r
             then let m = m - 1;
                      preceding = preceding -
                        (DAYS_IN_MONTH ! nat m + (if m = 2 \<and> leapyear then 1 else 0))
                  in (y, m, r - preceding + 1)
             else (y, m, r - preceding + 1)) = (y', m', d')"
  shows "y' = y \<and> 1 \<le> m' \<and> m' \<le> 12 \<and> 1 \<le> d' \<and>
         d' \<le> (if m' = 2 \<and> leapyear then 29 else DAYS_IN_MONTH ! nat m') \<and>
         DAYS_BEFORE_MONTH ! nat m' + (if m' > 2 \<and> leapyear then 1 else 0) + d' = r + 1"
proof -
  define m where "m = (r + 50) div 32"
  have "32 * m \<le> r + 50" "r + 50 < 32 * m + 32"
    unfolding m_def by simp_all
  with assms(1,2) have "1 \<le> m" "m \<le> 12" by arith+
  then consider "m = 1" | "m = 2" | "m = 3" | "m = 4" | "m = 5" | "m = 6"
    | "m = 7" | "m = 8" | "m = 9" | "m = 10" | "m = 11" | "m = 12"
    by (rule month_cases)
  then show ?thesis
    using assms(3) \<open>32 * m \<le> r + 50\<close> \<open>r + 50 < 32 * m + 32\<close> assms(1,2)
    unfolding m_def [symmetric]
    by cases (auto simp: Let_def DAYS_BEFORE_MONTH_def DAYS_IN_MONTH_def split: if_splits)
qed

lemma year_below_10000:
  assumes "days_before_year y < 3652059"
  shows "y \<le> 9999"
proof (rule ccontr)
  assume "\<not> y \<le> 9999"
  then have "10000 \<le> y" by simp
  then have "days_before_year 10000 \<le> days_before_year y"
    by (rule days_before_year_mono)
  with assms show False by (simp add: days_before_year_def)
qed

lemma ord2ymd_correct:
  assumes n: "1 \<le> n" "n \<le> MAXORDINAL" and res: "ord2ymd n = (y, m, d)"
  shows "MINYEAR \<le> y \<and> y \<le> MAXYEAR \<and> 1 \<le> m \<and> m \<le> 12 \<and> 1 \<le> d \<and>
         d \<le> days_in_month y m \<and> ymd2ord y m d = n"
proof -
  define n0 where "n0 = n - 1"
  define a where "a = n0 div 146097"
  define r1 where "r1 = n0 mod 146097"
  define b where "b = r1 div 36524"
  define r2 where "r2 = r1 mod 36524"
  define c where "c = r2 div 1461"
  define r3 where "r3 = r2 mod 1461"
  define e where "e = r3 div 365"
  define r4 where "r4 = r3 mod 365"
  have f1: "n0 = 146097 * a + r1" "0 \<le> r1" "r1 < 146097"
    by (simp_all add: a_def r1_def)
  have f2: "r1 = 36524 * b + r2" "0 \<le> r2" "r2 < 36524"
    by (simp_all add: b_def r2_def)
  have f3: "r2 = 1461 * c + r3" "0 \<le> r3" "r3 < 1461"
    by (simp_all add: c_def r3_def)
  have f4: "r3 = 365 * e + r4" "0 \<le> r4" "r4 < 365"
    by (simp_all add: e_def r4_def)
  from n have n0: "0 \<le> n0" "n0 = n - 1" by (simp_all add: n0_def)
  from f1 n0 have a0: "0 \<le> a" by arith
  from f2 f1 have b0: "0 \<le> b" "b \<le> 4" by arith+
  from f3 f2 have c0: "0 \<le> c" "c \<le> 24" by arith+
  from f4 f3 have e0: "0 \<le> e" "e \<le> 4" by arith+
  have u0: "ord2ymd n =
      (if e = 4 \<or> b = 4 then (a * 400 + 1 + (b * 100 + c * 4 + e) - 1, 12, 31)
       else
         (let leapyear = (e = 3 \<and> (c \<noteq> 24 \<or> b = 3));
              m = (r4 + 50) div 32;
              preceding = DAYS_BEFORE_MONTH ! nat m + (if m > 2 \<and> leapyear then 1 else 0)
          in if preceding > r4
             then let m = m - 1;
                      preceding = preceding -
                        (DAYS_IN_MONTH ! nat m + (if m = 2 \<and> leapyear then 1 else 0))
                  in (a * 400 + 1 + (b * 100 + c * 4 + e), m, r4 - preceding + 1)
             else (a * 400 + 1 + (b * 100 + c * 4 + e), m, r4 - preceding + 1)))"
    unfolding ord2ymd_def DI400Y_def DI100Y_def DI4Y_def
      r4_def e_def r3_def c_def r2_def b_def r1_def a_def n0_def Let_def
    by (rule refl)
  have Yeq: "a * 400 + 1 + (b * 100 + c * 4 + e) = 400 * a + 100 * b + 4 * c + e + 1"
    by simp
  have u: "ord2ymd n =
      (if e = 4 \<or> b = 4 then (400 * a + 100 * b + 4 * c + e, 12, 31)
       else
         (let m = (r4 + 50) div 32;
              preceding = DAYS_BEFORE_MONTH ! nat m +
                (if m > 2 \<and> (e = 3 \<and> (c \<noteq> 24 \<or> b = 3)) then 1 else 0)
          in if preceding > r4
             then let m = m - 1;
                      preceding = preceding -
                        (DAYS_IN_MONTH ! nat m +
                          (if m = 2 \<and> (e = 3 \<and> (c \<noteq> 24 \<or> b = 3)) then 1 else 0))
                  in (400 * a + 100 * b + 4 * c + e + 1, m, r4 - preceding + 1)
             else (400 * a + 100 * b + 4 * c + e + 1, m, r4 - preceding + 1)))"
    unfolding u0 Yeq by (simp only: Let_def add_diff_cancel_right')
  show ?thesis
  proof (cases "e = 4 \<or> b = 4")
    case True
    with u res have ymd: "y = 400 * a + 100 * b + 4 * c + e" "m = 12" "d = 31"
      by simp_all
    have "\<exists>b' c'. 0 \<le> b' \<and> b' \<le> 3 \<and> 0 \<le> c' \<and> c' \<le> 24 \<and>
        y = 400 * a + 100 * b' + 4 * c' + 3 + 1 \<and> (c' \<noteq> 24 \<or> b' = 3) \<and>
        n0 = 146097 * a + 36524 * b' + 1461 * c' + 365 * 3 + 365"
    proof (cases "b = 4")
      case True
      with f1 f2 f3 f4 c0 e0 have "r2 = 0" "c = 0" "e = 0" "r4 = 0" by arith+
      with True ymd f1 f2 f3 f4 have
        "0 \<le> (3::int) \<and> (3::int) \<le> 3 \<and> 0 \<le> (24::int) \<and> (24::int) \<le> 24 \<and>
        y = 400 * a + 100 * 3 + 4 * 24 + 3 + 1 \<and> ((24::int) \<noteq> 24 \<or> (3::int) = 3) \<and>
        n0 = 146097 * a + 36524 * 3 + 1461 * 24 + 365 * 3 + 365"
        by simp
      then show ?thesis by blast
    next
      case False
      with \<open>e = 4 \<or> b = 4\<close> have e4: "e = 4" by simp
      with f3 f4 have "r4 = 0" by arith
      with e4 f2 f3 f4 c0 have c23: "c \<le> 23" by arith
      from False b0 have b3: "b \<le> 3" by simp
      from e4 ymd have y': "y = 400 * a + 100 * b + 4 * c + 3 + 1" by simp
      from e4 \<open>r4 = 0\<close> f1 f2 f3 f4 have
        n0': "n0 = 146097 * a + 36524 * b + 1461 * c + 365 * 3 + 365" by simp
      from c23 have "c \<noteq> 24 \<or> b = 3" by simp
      with b0 b3 c0 c23 y' n0' have
        "0 \<le> b \<and> b \<le> 3 \<and> 0 \<le> c \<and> c \<le> 24 \<and>
        y = 400 * a + 100 * b + 4 * c + 3 + 1 \<and> (c \<noteq> 24 \<or> b = 3) \<and>
        n0 = 146097 * a + 36524 * b + 1461 * c + 365 * 3 + 365"
        by linarith
      then show ?thesis by blast
    qed
    then obtain b' c' where h: "0 \<le> b'" "b' \<le> 3" "0 \<le> c'" "c' \<le> 24"
      "y = 400 * a + 100 * b' + 4 * c' + 3 + 1" "c' \<noteq> 24 \<or> b' = 3"
      "n0 = 146097 * a + 36524 * b' + 1461 * c' + 365 * 3 + 365"
      by blast
    from h(1-4) have dby: "days_before_year (400 * a + 100 * b' + 4 * c' + 3 + 1) =
        146097 * a + 36524 * b' + 1461 * c' + 365 * 3"
      by (intro days_before_year_decomp) simp_all
    from h(1-4) have "is_leap (400 * a + 100 * b' + 4 * c' + 3 + 1) \<longleftrightarrow>
        (3::int) = 3 \<and> (c' \<noteq> 24 \<or> b' = 3)"
      by (intro is_leap_decomp) simp_all
    with h(6) have leap: "is_leap y" by (simp add: h(5))
    from dby h(5) have dby': "days_before_year y = n0 - 365" by (simp add: h(7))
    with n n0 have "days_before_year y < 3652059" by (simp add: MAXORDINAL_def)
    then have "y \<le> 9999" by (rule year_below_10000)
    moreover from h(1,3,5) a0 have "1 \<le> y" by simp
    moreover from leap dby' n0 have "ymd2ord y 12 31 = n"
      by (simp add: ymd2ord_def days_before_month_num)
    ultimately show ?thesis
      by (simp add: ymd MINYEAR_def MAXYEAR_def days_in_month_num)
  next
    case False
    with b0 e0 have b3: "b \<le> 3" and e3: "e \<le> 3" by simp_all
    let ?Y = "400 * a + 100 * b + 4 * c + e + 1"
    let ?L = "e = 3 \<and> (c \<noteq> 24 \<or> b = 3)"
    from f4 have r4: "0 \<le> r4" "r4 \<le> 364" by simp_all
    from u res False have
      "(let m = (r4 + 50) div 32;
              preceding = DAYS_BEFORE_MONTH ! nat m + (if m > 2 \<and> ?L then 1 else 0)
          in if preceding > r4
             then let m = m - 1;
                      preceding = preceding -
                        (DAYS_IN_MONTH ! nat m + (if m = 2 \<and> ?L then 1 else 0))
                  in (?Y, m, r4 - preceding + 1)
             else (?Y, m, r4 - preceding + 1)) = (y, m, d)"
      by simp
    from month_of_offset [OF r4 this] have md: "y = ?Y" "1 \<le> m" "m \<le> 12" "1 \<le> d"
      "d \<le> (if m = 2 \<and> ?L then 29 else DAYS_IN_MONTH ! nat m)"
      "DAYS_BEFORE_MONTH ! nat m + (if m > 2 \<and> ?L then 1 else 0) + d = r4 + 1"
      by simp_all
    from b0 b3 c0 e0 e3 have dby: "days_before_year ?Y =
        146097 * a + 36524 * b + 1461 * c + 365 * e"
      by (intro days_before_year_decomp)
    from b0 b3 c0 e0 e3 have leap: "is_leap ?Y \<longleftrightarrow> ?L"
      by (intro is_leap_decomp)
    from dby f1 f2 f3 f4 have dby': "days_before_year y = n0 - r4" by (simp add: md(1))
    with n n0 r4 have "days_before_year y < 3652059" by (simp add: MAXORDINAL_def)
    then have "y \<le> 9999" by (rule year_below_10000)
    moreover from md(1) a0 b0 c0 e0 have "1 \<le> y" by simp
    moreover from md(5) leap have "d \<le> days_in_month y m"
      by (simp add: days_in_month_def md(1))
    moreover from md(6) leap dby' n0 have "ymd2ord y m d = n"
      by (simp add: ymd2ord_def days_before_month_def md(1))
    ultimately show ?thesis
      using md(2-4) by (simp add: MINYEAR_def MAXYEAR_def)
  qed
qed

lemma date_new_Inr_iff:
  "date_new y m d = Inr dt \<longleftrightarrow> dt = \<lparr>year = y, month = m, day = d\<rparr> \<and> date_valid dt"
  by (auto simp: date_new_def date_valid_def)

lemma date_new_valid:
  "date_valid dt \<Longrightarrow> date_new (year dt) (month dt) (day dt) = Inr dt"
  by (simp add: date_new_Inr_iff)

lemma days_before_year_1: "days_before_year 1 = 0"
  by (simp add: days_before_year_def)

lemma days_before_year_10000: "days_before_year 10000 = 3652059"
  by (simp add: days_before_year_def)

lemma toordinal_bounds:
  assumes "date_valid dt"
  shows "1 \<le> toordinal dt \<and> toordinal dt \<le> MAXORDINAL"
proof -
  from assms have v: "1 \<le> year dt" "year dt \<le> 9999" "1 \<le> month dt" "month dt \<le> 12"
    "1 \<le> day dt" "day dt \<le> days_in_month (year dt) (month dt)"
    by (simp_all add: date_valid_def MINYEAR_def MAXYEAR_def)
  from days_before_month_plus_day [OF v(3-6)] have md:
    "1 \<le> days_before_month (year dt) (month dt) + day dt"
    "days_before_month (year dt) (month dt) + day dt \<le> (if is_leap (year dt) then 366 else 365)"
    by simp_all
  from v(1) have lo: "0 \<le> days_before_year (year dt)"
    using days_before_year_mono [of 1 "year dt"] by (simp add: days_before_year_1)
  from v(2) have "days_before_year (year dt + 1) \<le> days_before_year 10000"
    by (intro days_before_year_mono) simp
  then have hi: "days_before_year (year dt) + (if is_leap (year dt) then 366 else 365) \<le> 3652059"
    by (simp only: days_before_year_next days_before_year_10000)
  from lo hi md show ?thesis
    by (simp add: toordinal_def ymd2ord_def MAXORDINAL_def split: if_splits)
qed

lemma fromordinal_correct:
  assumes "1 \<le> n" "n \<le> MAXORDINAL"
  shows "\<exists>dt. fromordinal n = Inr dt \<and> date_valid dt \<and> toordinal dt = n"
proof -
  obtain y m d where o: "ord2ymd n = (y, m, d)"
    by (cases "ord2ymd n") auto
  from ord2ymd_correct [OF assms o] have
    v: "date_valid \<lparr>year = y, month = m, day = d\<rparr>" and t: "ymd2ord y m d = n"
    by (simp_all add: date_valid_def)
  from v have "date_new y m d = Inr \<lparr>year = y, month = m, day = d\<rparr>"
    by (simp add: date_new_Inr_iff)
  with assms o have "fromordinal n = Inr \<lparr>year = y, month = m, day = d\<rparr>"
    by (simp add: fromordinal_def)
  with v t show ?thesis by (simp add: toordinal_def)
qed

lemma date_add_correct:
  assumes "0 < toordinal dt + k" "toordinal dt + k \<le> MAXORDINAL"
  shows "\<exists>dt'. date_add dt k = Inr dt' \<and> date_valid dt' \<and> toordinal dt' = toordinal dt + k"
  using assms fromordinal_correct [of "toordinal dt + k"] by (simp add: date_add_def)

lemma date_add_Inr:
  assumes "date_add dt k = Inr dt'"
  shows "date_valid dt' \<and> toordinal dt' = toordinal dt + k"
proof -
  from assms have r: "0 < toordinal dt + k" "toordinal dt + k \<le> MAXORDINAL"
    by (simp_all add: date_add_def Let_def split: if_splits)
  from date_add_correct [OF r] assms show ?thesis by auto
qed

lemma date_add_out_of_range:
  "\<not> (0 < toordinal dt + k \<and> toordinal dt + k \<le> MAXORDINAL) \<Longrightarrow>
     date_add dt k = Inl (OverflowError ''date value out of range'')"
  by (auto simp: date_add_def Let_def)

section \<open>The loop of birthdays\<close>

lemma date_update_year: "(b::date)\<lparr>year := y\<rparr> = \<lparr>year = y, month = month b, day = day b\<rparr>"
  by simp

lemma date_replace_year_Inr_iff:
  "date_replace_year b y = Inr dt \<longleftrightarrow> dt = b\<lparr>year := y\<rparr> \<and> exists_in_year b y"
  by (auto simp: date_replace_year_def date_new_Inr_iff exists_in_year_def date_update_year)

lemma date_replace_year_Inl:
  "\<not> exists_in_year b y \<Longrightarrow> \<exists>e. date_replace_year b y = Inl e"
  by (cases "date_replace_year b y") (auto simp: date_replace_year_Inr_iff)

lemma date_add_days_after:
  assumes "0 < toordinal dt + k" "toordinal dt + k \<le> MAXORDINAL"
  shows "date_add dt k = Inr (days_after dt k)"
proof -
  obtain y m d where o: "ord2ymd (toordinal dt + k) = (y, m, d)"
    by (cases "ord2ymd (toordinal dt + k)") auto
  from assms have "1 \<le> toordinal dt + k" by simp
  from ord2ymd_correct [OF this assms(2) o] have "date_valid \<lparr>year = y, month = m, day = d\<rparr>"
    by (simp add: date_valid_def)
  then have "date_new y m d = Inr \<lparr>year = y, month = m, day = d\<rparr>"
    by (simp add: date_new_Inr_iff)
  with assms o show ?thesis
    by (simp add: date_add_def fromordinal_def days_after_def)
qed

lemma weekend_date_add:
  assumes "date_valid dt" "5 \<le> weekday dt"
  shows "date_add dt ((7 - weekday dt) mod 7) = Inr (off_weekend dt) \<and>
         date_valid (off_weekend dt) \<and> weekday (off_weekend dt) = 0 \<and>
         toordinal (off_weekend dt) = toordinal dt + (if weekday dt = 5 then 2 else 1)"
proof -
  from toordinal_bounds [OF assms(1)] have b: "1 \<le> toordinal dt" "toordinal dt \<le> 3652059"
    by (simp_all add: MAXORDINAL_def)
  have "weekday dt < 7" by (simp add: weekday_def)
  with assms(2) consider "weekday dt = 5" | "weekday dt = 6" by linarith
  then show ?thesis
  proof cases
    case 1
    then have "(toordinal dt + 6) mod 7 = 5" by (simp add: weekday_def)
    with b have r: "0 < toordinal dt + 2" "toordinal dt + 2 \<le> MAXORDINAL"
      "(toordinal dt + 2 + 6) mod 7 = 0"
      unfolding MAXORDINAL_def by presburger+
    from 1 have k: "(7 - weekday dt) mod 7 = 2" by simp
    from 1 have o: "off_weekend dt = days_after dt 2" by (simp add: off_weekend_def)
    from date_add_days_after [OF r(1,2)] have a: "date_add dt 2 = Inr (off_weekend dt)"
      by (simp add: o)
    from date_add_Inr [OF a] r(3) 1 a show ?thesis
      by (simp add: k weekday_def)
  next
    case 2
    then have "(toordinal dt + 6) mod 7 = 6" by (simp add: weekday_def)
    with b have r: "0 < toordinal dt + 1" "toordinal dt + 1 \<le> MAXORDINAL"
      "(toordinal dt + 1 + 6) mod 7 = 0"
      unfolding MAXORDINAL_def by presburger+
    from 2 have k: "(7 - weekday dt) mod 7 = 1" by simp
    from 2 have o: "off_weekend dt = days_after dt 1" by (simp add: off_weekend_def)
    from date_add_days_after [OF r(1,2)] have a: "date_add dt 1 = Inr (off_weekend dt)"
      by (simp add: o)
    from date_add_Inr [OF a] r(3) 2 a show ?thesis
      by (simp add: k weekday_def)
  qed
qed

lemma off_weekend_weekday: "weekday dt < 5 \<Longrightarrow> off_weekend dt = dt"
  by (simp add: off_weekend_def)

lemma next_birthday_valid:
  assumes "placeable today b"
  shows "date_valid (next_birthday today b)"
  using assms by (auto simp: placeable_def next_birthday_def Let_def exists_in_year_def)

lemma birthday_entry_eq:
  assumes "birthday r = Some b" "placeable today (field_value b)"
  shows "birthday_entry today r = Inr (upcoming_entry today r)"
proof -
  let ?b = "field_value b"
  let ?ty = "?b\<lparr>year := year today\<rparr>"
  let ?nb = "next_birthday today ?b"
  from assms(2) have e1: "date_replace_year ?b (year today) = Inr ?ty"
    by (simp add: date_replace_year_Inr_iff placeable_def)
  have e2: "(if date_lt ?ty today then date_replace_year ?ty (year ?ty + 1) else Inr ?ty) = Inr ?nb"
    using assms(2)
    by (auto simp: date_replace_year_Inr_iff placeable_def next_birthday_def Let_def
        exists_in_year_def)
  from assms(2) have v: "date_valid ?nb" by (rule next_birthday_valid)
  have e3: "(if weekday ?nb \<ge> 5 then date_add ?nb ((7 - weekday ?nb) mod 7) else Inr ?nb) =
      Inr (off_weekend ?nb)"
  proof (cases "5 \<le> weekday ?nb")
    case True
    with weekend_date_add [OF v] show ?thesis by simp
  next
    case False
    then show ?thesis by (simp add: off_weekend_weekday)
  qed
  show ?thesis
    unfolding birthday_entry_def upcoming_entry_def assms(1) option.case e1 sum.case e2 e3
      date_sub_days_def Let_def days_to_birthday_def
    by simp
qed

lemma birthday_entry_None: "birthday r = None \<Longrightarrow> birthday_entry today r = Inr (upcoming_entry today r)"
  by (simp add: birthday_entry_def upcoming_entry_def)

lemma birthdays_loop_eq:
  assumes "\<forall>r \<in> set rs. birthday_entry today r = Inr (upcoming_entry today r)"
  shows "birthdays_loop today rs acc = Inr (acc @ List.map_filter (upcoming_entry today) rs)"
  using assms
proof (induction rs arbitrary: acc)
  case Nil
  then show ?case by (simp add: List.map_filter_simps)
next
  case (Cons r rs)
  then show ?case
    by (cases "upcoming_entry today r") (simp_all add: List.map_filter_simps)
qed

lemma birthdays_loop_Inr_mem:
  assumes "birthdays_loop today rs acc = Inr entries" "x \<in> set entries"
  shows "x \<in> set acc \<or> (\<exists>r \<in> set rs. birthday_entry today r = Inr (Some x))"
  using assms
proof (induction rs arbitrary: acc)
  case Nil
  then show ?case by simp
next
  case (Cons r rs)
  show ?case
  proof (cases "birthday_entry today r")
    case (Inl e)
    with Cons.prems show ?thesis by simp
  next
    case (Inr v)
    show ?thesis
    proof (cases v)
      case None
      with Inr Cons.prems have "birthdays_loop today rs acc = Inr entries" by simp
      from Cons.IH [OF this Cons.prems(2)] show ?thesis by auto
    next
      case (Some entry)
      with Inr Cons.prems have "birthdays_loop today rs (acc @ [entry]) = Inr entries" by simp
      from Cons.IH [OF this Cons.prems(2)] Inr Some show ?thesis by auto
    qed
  qed
qed

lemma birthdays_loop_Inl:
  assumes "r \<in> set rs" "birthday_entry today r = Inl e"
  shows "\<exists>e'. birthdays_loop today rs acc = Inl e'"
  using assms
proof (induction rs arbitrary: acc)
  case Nil
  then show ?case by simp
next
  case (Cons a rs)
  then show ?case
    by (cases "birthday_entry today a") (auto split: option.splits)
qed

lemma in_window_upcoming_entry: "in_window today r \<longleftrightarrow> upcoming_entry today r \<noteq> None"
  by (simp add: in_window_def upcoming_entry_def split: option.splits)

lemma upcoming_names:
  "map fst (upcoming today rs) = map (\<lambda>r. field_value (name r)) (filter (in_window today) rs)"
proof (induction rs)
  case Nil
  then show ?case by (simp add: upcoming_def List.map_filter_simps)
next
  case (Cons r rs)
  then show ?case
    by (cases "upcoming_entry today r")
      (auto simp: upcoming_def List.map_filter_simps in_window_upcoming_entry
        upcoming_entry_def split: option.splits if_splits)
qed

lemma upcoming_empty: "(\<forall>r \<in> set rs. \<not> in_window today r) \<Longrightarrow> upcoming today rs = []"
  by (induction rs)
    (auto simp: upcoming_def List.map_filter_simps in_window_upcoming_entry
      split: option.splits)

section \<open>Parsing a date\<close>

lemma TODECIMAL_ascii:
  assumes "c < 128"
  shows "Py_UNICODE_TODECIMAL c = (if 48 \<le> c \<and> c \<le> 57 then Some (int c - 48) else None)"
proof (cases "48 \<le> c \<and> c \<le> 57")
  case True
  then have "c - 48 < 10" by arith
  then have "(c - 48) mod 10 = c - 48" by (rule mod_less)
  with True show ?thesis
    by (simp add: Py_UNICODE_TODECIMAL_def DECIMAL_RANGES_def)
next
  case False
  with assms show ?thesis
    by (auto simp: Py_UNICODE_TODECIMAL_def DECIMAL_RANGES_def)
qed

lemma re_digit_ascii: "c < 128 \<Longrightarrow> re_digit c \<longleftrightarrow> 48 \<le> c \<and> c \<le> 57"
  by (simp add: re_digit_def TODECIMAL_ascii)

lemma one_char_simps:
  "one_char P [] = []"
  "one_char P (c # r) = (if P c then [([c], r)] else [])"
  by (simp_all add: one_char_def)

lemma seq_one_char:
  "seq (one_char P) q [] = []"
  "seq (one_char P) q (c # r) = (if P c then map (\<lambda>(b, r'). (c # b, r')) (q r) else [])"
  by (simp_all add: seq_def one_char_def)

lemma group_d_two:
  assumes "(c1 = 51 \<and> 48 \<le> c2 \<and> c2 \<le> 49) \<or> (49 \<le> c1 \<and> c1 \<le> 50 \<and> 48 \<le> c2 \<and> c2 \<le> 57) \<or>
           (c1 = 48 \<and> 49 \<le> c2 \<and> c2 \<le> 57) \<or> (c1 = 32 \<and> 49 \<le> c2 \<and> c2 \<le> 57)"
  shows "concat (map (\<lambda>(d, r1). concat (map (\<lambda>(dot1, r2). K d r2) (one_char (chr 46) r1)))
           (group_d (c1 # c2 # 46 # rest))) = K [c1, c2] rest"
proof -
  from assms have "c2 < 128" by auto
  then have "re_digit c2 \<longleftrightarrow> 48 \<le> c2 \<and> c2 \<le> 57" by (rule re_digit_ascii)
  with assms show ?thesis
    by (auto simp: group_d_def alt_def seq_one_char one_char_simps chr_def rng_def)
qed

lemma group_d_one:
  assumes "49 \<le> c" "c \<le> 57"
  shows "concat (map (\<lambda>(d, r1). concat (map (\<lambda>(dot1, r2). K d r2) (one_char (chr 46) r1)))
           (group_d (c # 46 # rest))) = K [c] rest"
proof -
  have "\<not> re_digit 46" by (simp add: re_digit_ascii)
  with assms show ?thesis
    by (auto simp: group_d_def alt_def seq_one_char one_char_simps chr_def rng_def)
qed

lemma group_m_two:
  assumes "(c1 = 49 \<and> 48 \<le> c2 \<and> c2 \<le> 50) \<or> (c1 = 48 \<and> 49 \<le> c2 \<and> c2 \<le> 57)"
  shows "concat (map (\<lambda>(m, r3). concat (map (\<lambda>(dot2, r4). K m r4) (one_char (chr 46) r3)))
           (group_m (c1 # c2 # 46 # rest))) = K [c1, c2] rest"
  using assms
  by (auto simp: group_m_def alt_def seq_one_char one_char_simps chr_def rng_def)

lemma group_m_one:
  assumes "49 \<le> c" "c \<le> 57"
  shows "concat (map (\<lambda>(m, r3). concat (map (\<lambda>(dot2, r4). K m r4) (one_char (chr 46) r3)))
           (group_m (c # 46 # rest))) = K [c] rest"
  using assms
  by (auto simp: group_m_def alt_def seq_one_char one_char_simps chr_def rng_def)

lemma group_Y_four:
  assumes "re_digit y1" "re_digit y2" "re_digit y3" "re_digit y4"
  shows "group_Y (y1 # y2 # y3 # y4 # rest) = [([y1, y2, y3, y4], rest)]"
  using assms by (simp add: group_Y_def seq_one_char one_char_simps)

lemma digits4:
  fixes y :: int
  assumes "0 \<le> y" "y \<le> 9999"
  shows "10 * (10 * (10 * (y div 1000 mod 10) + y div 100 mod 10) + y div 10 mod 10) + y mod 10 = y"
proof -
  have a: "y div 100 = y div 10 div 10" "y div 1000 = y div 10 div 10 div 10"
    by (simp_all add: zdiv_zmult2_eq)
  from assms have "y div 10 div 10 div 10 < 10" by simp
  with assms have "y div 10 div 10 div 10 mod 10 = y div 10 div 10 div 10" by simp
  then show ?thesis
    unfolding a by (simp add: mult_div_mod_eq)
qed

lemma digits2:
  fixes d :: int
  assumes "0 \<le> d" "d \<le> 99"
  shows "10 * (d div 10 mod 10) + d mod 10 = d"
proof -
  from assms have "d div 10 < 10" by simp
  with assms have "d div 10 mod 10 = d div 10" by simp
  then show ?thesis by simp
qed

lemma int_digits_ascii:
  assumes "48 \<le> c" "c \<le> 57"
  shows "int_digits acc (c # cs) = int_digits (10 * acc + (int c - 48)) cs"
  using assms by (simp add: TODECIMAL_ascii)

lemma py_int_two:
  assumes "48 \<le> c1" "c1 \<le> 57" "48 \<le> c2" "c2 \<le> 57"
  shows "py_int [c1, c2] = Inr (10 * (int c1 - 48) + (int c2 - 48))"
  using assms by (simp add: py_int_def int_digits_ascii del: int_digits.simps(2))

lemma py_int_one:
  assumes "48 \<le> c" "c \<le> 57"
  shows "py_int [c] = Inr (int c - 48)" "py_int [32, c] = Inr (int c - 48)"
  using assms by (simp_all add: py_int_def int_digits_ascii del: int_digits.simps(2))

lemma py_int_four:
  assumes "48 \<le> c1" "c1 \<le> 57" "48 \<le> c2" "c2 \<le> 57" "48 \<le> c3" "c3 \<le> 57" "48 \<le> c4" "c4 \<le> 57"
  shows "py_int [c1, c2, c3, c4] =
    Inr (10 * (10 * (10 * (int c1 - 48) + (int c2 - 48)) + (int c3 - 48)) + (int c4 - 48))"
  using assms by (simp add: py_int_def int_digits_ascii del: int_digits.simps(2))

lemma digit_char:
  fixes n :: int
  shows "48 \<le> 48 + nat (n mod 10)" "48 + nat (n mod 10) \<le> 57"
    "int (48 + nat (n mod 10)) - 48 = n mod 10"
  by simp_all

lemma day_text_cases:
  assumes "day_text ds d"
  obtains c1 c2 where "ds = [c1, c2]"
      "(c1 = 51 \<and> 48 \<le> c2 \<and> c2 \<le> 49) \<or> (49 \<le> c1 \<and> c1 \<le> 50 \<and> 48 \<le> c2 \<and> c2 \<le> 57) \<or>
       (c1 = 48 \<and> 49 \<le> c2 \<and> c2 \<le> 57) \<or> (c1 = 32 \<and> 49 \<le> c2 \<and> c2 \<le> 57)"
      "py_int ds = Inr d"
    | c where "ds = [c]" "49 \<le> c" "c \<le> 57" "py_int ds = Inr d"
proof -
  from assms have d: "1 \<le> d" "d \<le> 31" by (simp_all add: day_text_def)
  from assms consider "ds = zfill2 d" | "d \<le> 9" "ds = [48 + nat d]" | "d \<le> 9" "ds = [32, 48 + nat d]"
    by (auto simp: day_text_def)
  then show thesis
  proof cases
    case 1
    define a where "a = d div 10"
    define b where "b = d mod 10"
    have ab: "d = 10 * a + b" "0 \<le> b" "b \<le> 9" by (simp_all add: a_def b_def)
    with d have a03: "0 \<le> a" "a \<le> 3" by arith+
    then have am: "a mod 10 = a" by simp
    from 1 have ds: "ds = [48 + nat a, 48 + nat b]"
      by (simp add: zfill2_def a_def [symmetric] b_def [symmetric] am)
    from a03 ab have "py_int [48 + nat a, 48 + nat b] = Inr (10 * (int (48 + nat a) - 48) +
        (int (48 + nat b) - 48))"
      by (intro py_int_two) simp_all
    with a03 ab have p: "py_int ds = Inr d" by (simp add: ds)
    from a03 consider "a = 0" | "a = 1" | "a = 2" | "a = 3" by arith
    then have "(48 + nat a = 51 \<and> 48 \<le> 48 + nat b \<and> 48 + nat b \<le> 49) \<or>
        (49 \<le> 48 + nat a \<and> 48 + nat a \<le> 50 \<and> 48 \<le> 48 + nat b \<and> 48 + nat b \<le> 57) \<or>
        (48 + nat a = 48 \<and> 49 \<le> 48 + nat b \<and> 48 + nat b \<le> 57) \<or>
        (48 + nat a = 32 \<and> 49 \<le> 48 + nat b \<and> 48 + nat b \<le> 57)"
      using ab d by cases auto
    with ds p that(1) show ?thesis by blast
  next
    case 2
    with d have "py_int [48 + nat d] = Inr (int (48 + nat d) - 48)"
      by (intro py_int_one) simp_all
    moreover from 2 d have "49 \<le> 48 + nat d" "48 + nat d \<le> 57" by arith+
    ultimately show ?thesis using 2 d that(2) [of "48 + nat d"] by simp
  next
    case 3
    with d have "py_int [32, 48 + nat d] = Inr (int (48 + nat d) - 48)"
      by (intro py_int_one) simp_all
    moreover from 3 d have "49 \<le> 48 + nat d" "48 + nat d \<le> 57" by arith+
    ultimately show ?thesis using 3 d that(1) [of 32 "48 + nat d"] by simp
  qed
qed

lemma month_text_cases:
  assumes "month_text ms m"
  obtains c1 c2 where "ms = [c1, c2]"
      "(c1 = 49 \<and> 48 \<le> c2 \<and> c2 \<le> 50) \<or> (c1 = 48 \<and> 49 \<le> c2 \<and> c2 \<le> 57)"
      "py_int ms = Inr m"
    | c where "ms = [c]" "49 \<le> c" "c \<le> 57" "py_int ms = Inr m"
proof -
  from assms have m: "1 \<le> m" "m \<le> 12" by (simp_all add: month_text_def)
  from assms consider "ms = zfill2 m" | "m \<le> 9" "ms = [48 + nat m]"
    by (auto simp: month_text_def)
  then show thesis
  proof cases
    case 1
    define a where "a = m div 10"
    define b where "b = m mod 10"
    have ab: "m = 10 * a + b" "0 \<le> b" "b \<le> 9" by (simp_all add: a_def b_def)
    with m have a01: "0 \<le> a" "a \<le> 1" by arith+
    then have am: "a mod 10 = a" by simp
    from 1 have ms: "ms = [48 + nat a, 48 + nat b]"
      by (simp add: zfill2_def a_def [symmetric] b_def [symmetric] am)
    from a01 ab have "py_int [48 + nat a, 48 + nat b] = Inr (10 * (int (48 + nat a) - 48) +
        (int (48 + nat b) - 48))"
      by (intro py_int_two) simp_all
    with a01 ab have p: "py_int ms = Inr m" by (simp add: ms)
    from a01 consider "a = 0" | "a = 1" by arith
    then have "(48 + nat a = 49 \<and> 48 \<le> 48 + nat b \<and> 48 + nat b \<le> 50) \<or>
        (48 + nat a = 48 \<and> 49 \<le> 48 + nat b \<and> 48 + nat b \<le> 57)"
      using ab m by cases auto
    with ms p that(1) show ?thesis by blast
  next
    case 2
    with m have "py_int [48 + nat m] = Inr (int (48 + nat m) - 48)"
      by (intro py_int_one) simp_all
    moreover from 2 m have "49 \<le> 48 + nat m" "48 + nat m \<le> 57" by arith+
    ultimately show ?thesis using 2 m that(2) [of "48 + nat m"] by simp
  qed
qed

lemma zfill4_digits:
  assumes "0 \<le> y" "y \<le> 9999"
  shows "\<exists>y1 y2 y3 y4. zfill4 y = [y1, y2, y3, y4] \<and> re_digit y1 \<and> re_digit y2 \<and>
           re_digit y3 \<and> re_digit y4 \<and> py_int [y1, y2, y3, y4] = Inr y"
proof -
  let ?c = "\<lambda>n::int. 48 + nat (n mod 10)"
  have r: "re_digit (?c n)" for n
    by (simp add: re_digit_ascii)
  have "py_int [?c (y div 1000), ?c (y div 100), ?c (y div 10), ?c y] =
      Inr (10 * (10 * (10 * (int (?c (y div 1000)) - 48) + (int (?c (y div 100)) - 48)) +
        (int (?c (y div 10)) - 48)) + (int (?c y) - 48))"
    by (intro py_int_four digit_char)
  also have "\<dots> = Inr y"
    using digits4 [OF assms] by (simp only: digit_char)
  finally have "py_int [?c (y div 1000), ?c (y div 100), ?c (y div 10), ?c y] = Inr y" .
  with r show ?thesis by (simp add: zfill4_def)
qed

lemma strptime_dmY_texts:
  assumes "day_text ds d" "month_text ms m" "0 \<le> y" "y \<le> 9999"
  shows "strptime_dmY (ds @ [46] @ ms @ [46] @ zfill4 y) = date_new y m d"
proof -
  from zfill4_digits [OF assms(3,4)] obtain y1 y2 y3 y4 where
    y: "zfill4 y = [y1, y2, y3, y4]" "re_digit y1" "re_digit y2" "re_digit y3" "re_digit y4"
    "py_int [y1, y2, y3, y4] = Inr y"
    by blast
  have Y: "group_Y (y1 # y2 # y3 # y4 # []) = [([y1, y2, y3, y4], [])]"
    using y(2-5) by (rule group_Y_four)
  have "re_match (ds @ [46] @ ms @ [46] @ zfill4 y) = Some (ds, ms, zfill4 y, [])"
    using assms(1)
  proof (cases rule: day_text_cases)
    case (1 c1 c2)
    note d = this
    from assms(2) show ?thesis
    proof (cases rule: month_text_cases)
      case (1 e1 e2)
      with d y(1) Y show ?thesis
        by (simp add: re_match_def group_d_two group_m_two one_char_simps)
    next
      case (2 e)
      with d y(1) Y show ?thesis
        by (simp add: re_match_def group_d_two group_m_one one_char_simps)
    qed
  next
    case (2 c)
    note d = this
    from assms(2) show ?thesis
    proof (cases rule: month_text_cases)
      case (1 e1 e2)
      with d y(1) Y show ?thesis
        by (simp add: re_match_def group_d_one group_m_two one_char_simps)
    next
      case (2 e)
      with d y(1) Y show ?thesis
        by (simp add: re_match_def group_d_one group_m_one one_char_simps)
    qed
  qed
  moreover from assms(1) have "py_int ds = Inr d" by (cases rule: day_text_cases)
  moreover from assms(2) have "py_int ms = Inr m" by (cases rule: month_text_cases)
  ultimately show ?thesis
    using y(1,6) by (simp add: strptime_dmY_def)
qed

lemma date_new_cases:
  "date_new y m d =
     (if date_valid \<lparr>year = y, month = m, day = d\<rparr> then Inr \<lparr>year = y, month = m, day = d\<rparr>
      else date_new y m d) \<and>
   (\<not> date_valid \<lparr>year = y, month = m, day = d\<rparr> \<longrightarrow> (\<exists>msg. date_new y m d = Inl (ValueError msg)))"
  by (auto simp: date_new_def date_valid_def)

lemma Birthday_texts:
  assumes "day_text ds d" "month_text ms m" "0 \<le> y" "y \<le> 9999"
  shows "Birthday (ds @ [46] @ ms @ [46] @ zfill4 y) =
     (if date_valid \<lparr>year = y, month = m, day = d\<rparr>
      then Inr \<lparr>field_value = \<lparr>year = y, month = m, day = d\<rparr>\<rparr>
      else Inl (ValueError ''Invalid date format. Use DD.MM.YYYY''))"
proof (cases "date_valid \<lparr>year = y, month = m, day = d\<rparr>")
  case True
  then have "date_new y m d = Inr \<lparr>year = y, month = m, day = d\<rparr>"
    by (simp add: date_new_Inr_iff)
  with True show ?thesis
    by (simp only: Birthday_def strptime_dmY_texts [OF assms]) simp
next
  case False
  with date_new_cases [of y m d] obtain msg where "date_new y m d = Inl (ValueError msg)"
    by blast
  with False show ?thesis
    by (simp only: Birthday_def strptime_dmY_texts [OF assms]) simp
qed

lemma valid_date_texts:
  assumes "date_valid dt"
  shows "day_text (zfill2 (day dt)) (day dt)" "month_text (zfill2 (month dt)) (month dt)"
    "0 \<le> year dt" "year dt \<le> 9999"
proof -
  from assms have v: "1 \<le> year dt" "year dt \<le> 9999" "1 \<le> month dt" "month dt \<le> 12"
    "1 \<le> day dt" "day dt \<le> days_in_month (year dt) (month dt)"
    by (simp_all add: date_valid_def MINYEAR_def MAXYEAR_def)
  from days_in_month_bounds [OF v(3,4), of "year dt"] v(6) have "day dt \<le> 31" by simp
  with v show "day_text (zfill2 (day dt)) (day dt)" "month_text (zfill2 (month dt)) (month dt)"
    "0 \<le> year dt" "year dt \<le> 9999"
    by (simp_all add: day_text_def month_text_def)
qed

lemma Birthday_strftime:
  assumes "date_valid dt"
  shows "Birthday (strftime_dmY dt) = Inr \<lparr>field_value = dt\<rparr>"
proof -
  have "\<lparr>year = year dt, month = month dt, day = day dt\<rparr> = dt" by simp
  with assms Birthday_texts [OF valid_date_texts [OF assms]] show ?thesis
    by (simp add: strftime_dmY_def)
qed















section \<open>The example data, evaluated\<close>

lemma ascii_simps: "ascii [] = []" "ascii (c # cs) = of_char c # ascii cs"
  by (simp_all add: ascii_def)

lemma date_valid_num:
  "date_valid \<lparr>year = 1990, month = 6, day = 12\<rparr>"
  "date_valid \<lparr>year = 1995, month = 6, day = 15\<rparr>"
  "date_valid \<lparr>year = 1990, month = 1, day = 1\<rparr>"
  "date_valid \<lparr>year = 2000, month = 2, day = 29\<rparr>"
  "date_valid \<lparr>year = 2024, month = 2, day = 29\<rparr>"
  "date_valid \<lparr>year = 2020, month = 1, day = 1\<rparr>"
  "date_valid \<lparr>year = 1999, month = 3, day = 7\<rparr>"
  "\<not> date_valid \<lparr>year = 2024, month = 2, day = 31\<rparr>"
  "date_valid \<lparr>year = 2024, month = 6, day = 10\<rparr>"
  "date_valid \<lparr>year = 2023, month = 6, day = 10\<rparr>"
  by (simp_all add: date_valid_def MINYEAR_def MAXYEAR_def days_in_month_num is_leap_def)

lemma rec_with_birthday_eval:
  assumes "date_valid dt" "strftime_dmY dt = ascii b"
  shows "rec_with_birthday n b =
    \<lparr>name = Name (ascii n), phones = [], birthday = Some \<lparr>field_value = dt\<rparr>\<rparr>"
  using Birthday_strftime [OF assms(1)]
  by (simp add: rec_with_birthday_def add_birthday_def Record_init_def assms(2))

lemma rec_ann_b:
  "rec_with_birthday ''Ann'' ''12.06.1990'' =
    \<lparr>name = Name (ascii ''Ann''), phones = [],
     birthday = Some \<lparr>field_value = \<lparr>year = 1990, month = 6, day = 12\<rparr>\<rparr>\<rparr>"
  by (rule rec_with_birthday_eval)
    (simp_all add: date_valid_num strftime_dmY_def zfill2_def zfill4_def ascii_simps)

lemma rec_bob_b:
  "rec_with_birthday ''Bob'' ''15.06.1995'' =
    \<lparr>name = Name (ascii ''Bob''), phones = [],
     birthday = Some \<lparr>field_value = \<lparr>year = 1995, month = 6, day = 15\<rparr>\<rparr>\<rparr>"
  by (rule rec_with_birthday_eval)
    (simp_all add: date_valid_num strftime_dmY_def zfill2_def zfill4_def ascii_simps)

lemma rec_cid_b:
  "rec_with_birthday ''Cid'' ''01.01.1990'' =
    \<lparr>name = Name (ascii ''Cid''), phones = [],
     birthday = Some \<lparr>field_value = \<lparr>year = 1990, month = 1, day = 1\<rparr>\<rparr>\<rparr>"
  by (rule rec_with_birthday_eval)
    (simp_all add: date_valid_num strftime_dmY_def zfill2_def zfill4_def ascii_simps)

lemma rec_eve_b:
  "rec_with_birthday ''Eve'' ''29.02.2000'' =
    \<lparr>name = Name (ascii ''Eve''), phones = [],
     birthday = Some \<lparr>field_value = \<lparr>year = 2000, month = 2, day = 29\<rparr>\<rparr>\<rparr>"
  by (rule rec_with_birthday_eval)
    (simp_all add: date_valid_num strftime_dmY_def zfill2_def zfill4_def ascii_simps)

lemma dict_values_book_scenario:
  "dict_values book_scenario =
     [rec_with_birthday ''Ann'' ''12.06.1990'', rec_with_birthday ''Bob'' ''15.06.1995'',
      rec_with_birthday ''Cid'' ''01.01.1990'']"
  by (simp add: book_scenario_def AddressBook_init_def add_record_def dict_values_def
      rec_ann_b rec_bob_b rec_cid_b Name_def ascii_simps)

lemma dict_values_book_leap:
  "dict_values book_leap =
     [rec_with_birthday ''Ann'' ''12.06.1990'', rec_with_birthday ''Eve'' ''29.02.2000'']"
  by (simp add: book_leap_def AddressBook_init_def add_record_def dict_values_def
      rec_ann_b rec_eve_b Name_def ascii_simps)

lemma toordinal_num:
  "toordinal \<lparr>year = 2024, month = 6, day = 10\<rparr> = 739047"
  "toordinal \<lparr>year = 2024, month = 6, day = 12\<rparr> = 739049"
  "toordinal \<lparr>year = 2024, month = 6, day = 15\<rparr> = 739052"
  "toordinal \<lparr>year = 2024, month = 6, day = 17\<rparr> = 739054"
  "toordinal \<lparr>year = 2025, month = 1, day = 1\<rparr> = 739252"
  "toordinal \<lparr>year = 2023, month = 6, day = 10\<rparr> = 738681"
  "toordinal \<lparr>year = 2023, month = 6, day = 12\<rparr> = 738683"
  by (simp_all add: toordinal_def ymd2ord_def days_before_year_def days_before_month_num
      is_leap_def)

lemma ord2ymd_739054: "ord2ymd 739054 = (2024, 6, 17)"
  by (simp add: ord2ymd_def Let_def DI400Y_def DI100Y_def DI4Y_def DAYS_BEFORE_MONTH_def
      DAYS_IN_MONTH_def)

section \<open>When the scheduler raises\<close>

lemma birthday_entry_not_placeable:
  assumes "birthday r = Some b" "\<not> placeable today (field_value b)"
  shows "\<exists>e. birthday_entry today r = Inl e"
proof (cases "exists_in_year (field_value b) (year today)")
  case False
  from date_replace_year_Inl [OF False] obtain e where
    "date_replace_year (field_value b) (year today) = Inl e" ..
  with assms(1) show ?thesis by (simp add: birthday_entry_def)
next
  case True
  let ?ty = "(field_value b)\<lparr>year := year today\<rparr>"
  from True have e1: "date_replace_year (field_value b) (year today) = Inr ?ty"
    by (simp add: date_replace_year_Inr_iff)
  from True assms(2) have lt: "date_lt ?ty today" and
    no: "\<not> exists_in_year (field_value b) (year today + 1)"
    by (auto simp: placeable_def)
  from no have "\<not> exists_in_year ?ty (year ?ty + 1)"
    by (simp add: exists_in_year_def)
  from date_replace_year_Inl [OF this] obtain e where
    "date_replace_year ?ty (year ?ty + 1) = Inl e" ..
  with assms(1) e1 lt show ?thesis
    by (simp add: birthday_entry_def)
qed

lemma birthday_entry_Some:
  assumes "birthday_entry today r = Inr (Some x)"
  shows "\<exists>b. birthday r = Some b \<and> placeable today (field_value b) \<and>
           upcoming_entry today r = Some x"
proof (cases "birthday r")
  case None
  with assms show ?thesis by (simp add: birthday_entry_def)
next
  case (Some b)
  have p: "placeable today (field_value b)"
  proof (rule ccontr)
    assume "\<not> placeable today (field_value b)"
    from birthday_entry_not_placeable [OF Some this] assms show False by auto
  qed
  from birthday_entry_eq [OF Some p] assms have "upcoming_entry today r = Some x" by simp
  with Some p show ?thesis by simp
qed

lemma all_placeable_entries:
  assumes "all_placeable today rs"
  shows "\<forall>r \<in> set rs. birthday_entry today r = Inr (upcoming_entry today r)"
proof
  fix r
  assume r: "r \<in> set rs"
  show "birthday_entry today r = Inr (upcoming_entry today r)"
  proof (cases "birthday r")
    case None
    then show ?thesis by (rule birthday_entry_None)
  next
    case (Some b)
    with assms r have "placeable today (field_value b)"
      by (auto simp: all_placeable_def list_all_iff)
    with Some show ?thesis by (rule birthday_entry_eq)
  qed
qed

lemma birthday_list_placeable:
  assumes "date_valid today" "toordinal today + 7 \<le> MAXORDINAL"
    "all_placeable today (dict_values book)"
  shows "birthday_list book today = Inr (upcoming today (dict_values book))"
proof -
  from toordinal_bounds [OF assms(1)] have "0 < toordinal today + 7" by simp
  from date_add_correct [OF this assms(2)] obtain next_week where
    "date_add today 7 = Inr next_week" by blast
  with birthdays_loop_eq [OF all_placeable_entries [OF assms(3)], of "[]"] show ?thesis
    by (simp add: birthday_list_def upcoming_def)
qed

lemma birthday_list_raises:
  assumes "date_valid today"
    "\<not> (toordinal today + 7 \<le> MAXORDINAL \<and> all_placeable today (dict_values book))"
  shows "\<exists>e. birthday_list book today = Inl e"
proof (cases "toordinal today + 7 \<le> MAXORDINAL")
  case False
  then have "date_add today 7 = Inl (OverflowError ''date value out of range'')"
    by (intro date_add_out_of_range) simp
  then show ?thesis by (simp add: birthday_list_def)
next
  case True
  from toordinal_bounds [OF assms(1)] have "0 < toordinal today + 7" by simp
  from date_add_correct [OF this True] obtain next_week where
    nw: "date_add today 7 = Inr next_week" by blast
  from True assms(2) obtain r b where
    r: "r \<in> set (dict_values book)" "birthday r = Some b" "\<not> placeable today (field_value b)"
    by (auto simp: all_placeable_def list_all_iff split: option.splits)
  from birthday_entry_not_placeable [OF r(2,3)] obtain e where
    "birthday_entry today r = Inl e" ..
  from birthdays_loop_Inl [OF r(1) this] nw show ?thesis
    by (simp add: birthday_list_def)
qed

lemma birthday_list_entry:
  assumes "birthday_list book today = Inr entries" "(n, s) \<in> set entries"
  shows "\<exists>r b. r \<in> set (dict_values book) \<and> birthday r = Some b \<and>
           placeable today (field_value b) \<and> upcoming_entry today r = Some (n, s)"
proof -
  from assms(1) have "birthdays_loop today (dict_values book) [] = Inr entries"
    by (simp add: birthday_list_def split: sum.splits)
  from birthdays_loop_Inr_mem [OF this assms(2)] obtain r where
    r: "r \<in> set (dict_values book)" "birthday_entry today r = Inr (Some (n, s))"
    by auto
  from birthday_entry_Some [OF r(2)] r(1) show ?thesis by blast
qed

lemma upcoming_entry_Some:
  assumes "birthday r = Some b" "placeable today (field_value b)"
    "upcoming_entry today r = Some (n, s)"
  shows "n = field_value (name r) \<and> in_window today r \<and>
         s = strftime_Ymd (off_weekend (next_birthday today (field_value b))) \<and>
         date_valid (off_weekend (next_birthday today (field_value b))) \<and>
         (weekday (next_birthday today (field_value b)) = 5 \<longrightarrow>
            toordinal (off_weekend (next_birthday today (field_value b))) =
              toordinal (next_birthday today (field_value b)) + 2 \<and>
            weekday (off_weekend (next_birthday today (field_value b))) = 0) \<and>
         (weekday (next_birthday today (field_value b)) = 6 \<longrightarrow>
            toordinal (off_weekend (next_birthday today (field_value b))) =
              toordinal (next_birthday today (field_value b)) + 1 \<and>
            weekday (off_weekend (next_birthday today (field_value b))) = 0) \<and>
         (weekday (next_birthday today (field_value b)) < 5 \<longrightarrow>
            off_weekend (next_birthday today (field_value b)) =
              next_birthday today (field_value b))"
proof -
  let ?nb = "next_birthday today (field_value b)"
  from assms(2) have v: "date_valid ?nb" by (rule next_birthday_valid)
  from assms(1,3) have e: "n = field_value (name r)" "in_window today r"
    "s = strftime_Ymd (off_weekend ?nb)"
    by (auto simp: upcoming_entry_def in_window_def split: if_splits)
  have w5: "weekday ?nb = 5 \<longrightarrow>
      toordinal (off_weekend ?nb) = toordinal ?nb + 2 \<and> weekday (off_weekend ?nb) = 0"
    using weekend_date_add [OF v] by simp
  have w6: "weekday ?nb = 6 \<longrightarrow>
      toordinal (off_weekend ?nb) = toordinal ?nb + 1 \<and> weekday (off_weekend ?nb) = 0"
    using weekend_date_add [OF v] by simp
  have w: "weekday ?nb < 5 \<longrightarrow> off_weekend ?nb = ?nb"
    by (simp add: off_weekend_weekday)
  have "date_valid (off_weekend ?nb)"
  proof (cases "5 \<le> weekday ?nb")
    case True
    with weekend_date_add [OF v] show ?thesis by simp
  next
    case False
    with v show ?thesis by (simp add: off_weekend_weekday)
  qed
  with e w5 w6 w show ?thesis by (intro conjI)
qed

section \<open>The scenario, evaluated\<close>

lemma next_birthday_scenario:
  "next_birthday today_scenario \<lparr>year = 1990, month = 6, day = 12\<rparr> =
     \<lparr>year = 2024, month = 6, day = 12\<rparr>"
  "next_birthday today_scenario \<lparr>year = 1995, month = 6, day = 15\<rparr> =
     \<lparr>year = 2024, month = 6, day = 15\<rparr>"
  "next_birthday today_scenario \<lparr>year = 1990, month = 1, day = 1\<rparr> =
     \<lparr>year = 2025, month = 1, day = 1\<rparr>"
  by (simp_all add: next_birthday_def today_scenario_def date_lt_def)

lemma weekday_scenario:
  "weekday \<lparr>year = 2024, month = 6, day = 10\<rparr> = 0"
  "weekday \<lparr>year = 2024, month = 6, day = 12\<rparr> = 2"
  "weekday \<lparr>year = 2024, month = 6, day = 15\<rparr> = 5"
  "weekday \<lparr>year = 2024, month = 6, day = 17\<rparr> = 0"
  by (simp_all add: weekday_def toordinal_num)

lemma off_weekend_scenario:
  "off_weekend \<lparr>year = 2024, month = 6, day = 12\<rparr> = \<lparr>year = 2024, month = 6, day = 12\<rparr>"
  "off_weekend \<lparr>year = 2024, month = 6, day = 15\<rparr> = \<lparr>year = 2024, month = 6, day = 17\<rparr>"
  by (simp_all add: off_weekend_def weekday_scenario days_after_def toordinal_num ord2ymd_739054)

lemma upcoming_scenario:
  "upcoming today_scenario (dict_values book_scenario) =
     [(ascii ''Ann'', ascii ''2024.06.12''), (ascii ''Bob'', ascii ''2024.06.17'')]"
  by (simp add: upcoming_def dict_values_book_scenario rec_ann_b rec_bob_b rec_cid_b
      List.map_filter_simps upcoming_entry_def days_to_birthday_def next_birthday_scenario
      off_weekend_scenario toordinal_num today_scenario_def [symmetric] Name_def)
    (simp add: today_scenario_def toordinal_num strftime_Ymd_def zfill2_def zfill4_def
      ascii_simps)

lemma placeable_scenario: "all_placeable today_scenario (dict_values book_scenario)"
  by (simp add: all_placeable_def dict_values_book_scenario rec_ann_b rec_bob_b rec_cid_b
      placeable_def exists_in_year_def date_valid_def today_scenario_def date_lt_def
      MINYEAR_def MAXYEAR_def days_in_month_num)

lemma today_scenario_ok:
  "date_valid today_scenario" "toordinal today_scenario + 7 \<le> MAXORDINAL"
  by (simp_all add: today_scenario_def date_valid_num toordinal_num MAXORDINAL_def)

lemma birthday_list_scenario:
  "birthday_list book_scenario today_scenario =
     Inr [(ascii ''Ann'', ascii ''2024.06.12''), (ascii ''Bob'', ascii ''2024.06.17'')]"
  using birthday_list_placeable [OF today_scenario_ok placeable_scenario]
  by (simp add: upcoming_scenario)

section \<open>Claims about phones, records and the address book\<close>

text \<open>
  Claim C3. The specification says that a phone number is accepted if and only if it is
  ten decimal digits (\<open>^\\d{10}$\<close>), and that an accepted value is rendered unchanged.
  \<open>Phone.__init__\<close> tests \<open>str.isdigit()\<close>, which also holds for characters that are
  not decimal digits: the string of ten superscript twos (code point 178) is accepted,
  although no character of it is a decimal digit, in ASCII or in any other script.
\<close>

theorem Phone_accepts_superscript_digits:
  "Phone superscript_twos = Inr \<lparr>field_value = superscript_twos\<rparr> \<and>
   str_Field \<lparr>field_value = superscript_twos\<rparr> = superscript_twos \<and>
   \<not> ten_decimal_digits superscript_twos \<and>
   list_all (\<lambda>c. \<not> decimal_digit c \<and> Py_UNICODE_TODECIMAL c = None) superscript_twos"
proof -
  have "Py_UNICODE_ISDIGIT 178"
    by (simp add: Py_UNICODE_ISDIGIT_def in_ranges_def DIGIT_RANGES_def)
  moreover have "Py_UNICODE_TODECIMAL 178 = None"
    by (simp add: Py_UNICODE_TODECIMAL_def DECIMAL_RANGES_def)
  ultimately show ?thesis
    by (simp add: superscript_twos_def Phone_def isdigit_def ten_decimal_digits_def
        decimal_digit_def str_Field_def)
qed

theorem Phone_accepts_superscript_digits_witness:
  "\<exists>p. Phone superscript_twos = Inr p \<and> str_Field p = superscript_twos \<and>
       \<not> ten_decimal_digits (str_Field p)"
  using Phone_accepts_superscript_digits by simp

text \<open>
  What holds of the code: on ASCII strings the constructor accepts exactly the strings of
  ten decimal digits, every string of ten decimal digits is accepted, every rejection
  carries the same message, and an accepted value is rendered unchanged.
\<close>

lemma Phone_ten_decimal_digits:
  "ten_decimal_digits raw \<Longrightarrow> Phone raw = Inr \<lparr>field_value = raw\<rparr>"
  by (auto simp: ten_decimal_digits_def decimal_digit_def Phone_Inr_iff isdigit_def
      list_all_iff ISDIGIT_ascii_digit)

lemma Phone_ascii_ten_decimal_digits:
  "\<forall>c \<in> set raw. c < 128 \<Longrightarrow> (\<exists>p. Phone raw = Inr p) \<longleftrightarrow> ten_decimal_digits raw"
  by (simp add: Phone_ascii_iff ten_decimal_digits_def decimal_digit_def list_all_iff)

text \<open>
  Claim C6. The specification says that \<open>edit_phone\<close> fails when no phone equals
  \<open>old\<close>, that it otherwise fails when \<open>new\<close> is not ten decimal digits, and that on
  success only the first phone equal to \<open>old\<close> is replaced. The second check of the code is
  the test of \<open>Phone.__init__\<close>, \<open>str.isdigit()\<close>: with ten superscript twos as
  \<open>new\<close> the call does not fail, and the first phone of the record becomes that string.
\<close>

theorem edit_phone_accepts_superscript_digits:
  "list_ex (\<lambda>p. field_value p = ascii ''1111111111'') (phones rec_ann) \<and>
   \<not> ten_decimal_digits superscript_twos \<and>
   edit_phone (ascii ''1111111111'') superscript_twos rec_ann =
     (Inr (), rec_ann\<lparr>phones := [\<lparr>field_value = superscript_twos\<rparr>, phone_2, phone_1]\<rparr>)"
proof -
  have "Py_UNICODE_ISDIGIT 178"
    by (simp add: Py_UNICODE_ISDIGIT_def in_ranges_def DIGIT_RANGES_def)
  then have d: "length superscript_twos = 10" "isdigit superscript_twos"
    by (simp_all add: superscript_twos_def isdigit_def)
  have n: "\<not> ten_decimal_digits superscript_twos"
    by (simp add: superscript_twos_def ten_decimal_digits_def decimal_digit_def)
  have e: "list_ex (\<lambda>p. field_value p = ascii ''1111111111'') (phones rec_ann)"
    by (simp add: rec_ann_def phone_1_def)
  from d e have "edit_phone (ascii ''1111111111'') superscript_twos rec_ann =
      (Inr (), rec_ann\<lparr>phones := edit_phone_loop (ascii ''1111111111'') superscript_twos
        (phones rec_ann)\<rparr>)"
    by (simp add: edit_phone_def)
  moreover have "edit_phone_loop (ascii ''1111111111'') superscript_twos (phones rec_ann) =
      [\<lparr>field_value = superscript_twos\<rparr>, phone_2, phone_1]"
    by (simp add: rec_ann_def phone_1_def)
  ultimately show ?thesis using e n by simp
qed

theorem edit_phone_accepts_superscript_digits_witness:
  "fst (edit_phone (ascii ''1111111111'') superscript_twos rec_ann) = Inr () \<and>
   phones (snd (edit_phone (ascii ''1111111111'') superscript_twos rec_ann)) =
     [\<lparr>field_value = superscript_twos\<rparr>, phone_2, phone_1]"
  using edit_phone_accepts_superscript_digits by simp

text \<open>
  What holds of the code: \<open>edit_phone\<close> fails with the old-number error when no phone
  equals \<open>old\<close>, whatever \<open>new\<close> is; otherwise it fails with the new-number error exactly
  when \<open>Phone new\<close> would be rejected; otherwise it assigns \<open>new\<close> to the first phone equal
  to \<open>old\<close> and leaves every other phone, later duplicates of \<open>old\<close> included, as it was.
\<close>

theorem edit_phone_first_match:
  "(\<not> (\<exists>p \<in> set (phones r). field_value p = old) \<longrightarrow>
      edit_phone old new r = (Inl (ValueError ''Old phone number is not exist''), r)) \<and>
   ((\<exists>p \<in> set (phones r). field_value p = old) \<and> (\<exists>e. Phone new = Inl e) \<longrightarrow>
      edit_phone old new r = (Inl (ValueError ''New phone number must be 10 digits''), r)) \<and>
   ((\<exists>p \<in> set (phones r). field_value p = old) \<and> (\<exists>p. Phone new = Inr p) \<longrightarrow>
      (\<exists>pre q post.
         phones r = pre @ q # post \<and> (\<forall>p \<in> set pre. field_value p \<noteq> old) \<and>
         field_value q = old \<and>
         edit_phone old new r =
           (Inr (), r\<lparr>phones := pre @ q\<lparr>field_value := new\<rparr> # post\<rparr>)))"
proof (intro conjI impI)
  assume "\<not> (\<exists>p \<in> set (phones r). field_value p = old)"
  then show "edit_phone old new r = (Inl (ValueError ''Old phone number is not exist''), r)"
    by (simp add: edit_phone_def list_ex_iff)
next
  assume "(\<exists>p \<in> set (phones r). field_value p = old) \<and> (\<exists>e. Phone new = Inl e)"
  then show "edit_phone old new r = (Inl (ValueError ''New phone number must be 10 digits''), r)"
    by (auto simp: edit_phone_def list_ex_iff Phone_Inl_iff)
next
  assume a: "(\<exists>p \<in> set (phones r). field_value p = old) \<and> (\<exists>p. Phone new = Inr p)"
  then have ok: "length new = 10 \<and> isdigit new"
    by (auto simp: Phone_Inr_iff)
  from a edit_phone_loop_first [of "phones r" old new] obtain pre q post where h:
    "phones r = pre @ q # post" "\<forall>p \<in> set pre. field_value p \<noteq> old" "field_value q = old"
    "edit_phone_loop old new (phones r) = pre @ q\<lparr>field_value := new\<rparr> # post"
    by blast
  from a ok h(4) have
    "edit_phone old new r = (Inr (), r\<lparr>phones := pre @ q\<lparr>field_value := new\<rparr> # post\<rparr>)"
    by (simp add: edit_phone_def list_ex_iff)
  with h(1-3) show "\<exists>pre q post.
         phones r = pre @ q # post \<and> (\<forall>p \<in> set pre. field_value p \<noteq> old) \<and>
         field_value q = old \<and>
         edit_phone old new r =
           (Inr (), r\<lparr>phones := pre @ q\<lparr>field_value := new\<rparr> # post\<rparr>)"
    by blast
qed

theorem edit_phone_first_match_witness:
  "edit_phone (ascii ''9999999999'') (ascii ''2222222222'') rec_ann =
     (Inl (ValueError ''Old phone number is not exist''), rec_ann) \<and>
   edit_phone (ascii ''1111111111'') (ascii ''12345'') rec_ann =
     (Inl (ValueError ''New phone number must be 10 digits''), rec_ann) \<and>
   (\<exists>pre q post.
      phones rec_ann = pre @ q # post \<and>
      (\<forall>p \<in> set pre. field_value p \<noteq> ascii ''1111111111'') \<and>
      field_value q = ascii ''1111111111'' \<and>
      edit_phone (ascii ''1111111111'') (ascii ''3333333333'') rec_ann =
        (Inr (), rec_ann\<lparr>phones := pre @ q\<lparr>field_value := ascii ''3333333333''\<rparr> # post\<rparr>))"
proof -
  have absent: "\<not> (\<exists>p \<in> set (phones rec_ann). field_value p = ascii ''9999999999'')"
    by (simp add: rec_ann_def phone_1_def phone_2_def ascii_def)
  have present: "\<exists>p \<in> set (phones rec_ann). field_value p = ascii ''1111111111''"
    by (simp add: rec_ann_def phone_1_def)
  have bad: "\<exists>e. Phone (ascii ''12345'') = Inl e"
    by (simp add: Phone_def ascii_def)
  have "Phone (ascii ''3333333333'') = Inr \<lparr>field_value = ascii ''3333333333''\<rparr>"
    by (simp add: Phone_Inr_iff isdigit_def ISDIGIT_ascii_digit ascii_def)
  then have good: "\<exists>p. Phone (ascii ''3333333333'') = Inr p" ..
  from absent present bad good
    edit_phone_first_match [of rec_ann "ascii ''9999999999''" "ascii ''2222222222''"]
    edit_phone_first_match [of rec_ann "ascii ''1111111111''" "ascii ''12345''"]
    edit_phone_first_match [of rec_ann "ascii ''1111111111''" "ascii ''3333333333''"]
  show ?thesis by blast
qed

text \<open>
  Claim C9. A call of \<open>add_phone\<close> or \<open>edit_phone\<close> that raises leaves the record,
  and so its list of phones, exactly as it was; \<open>add_phone\<close> raises whenever the string is
  not ten digits.
\<close>

theorem failed_call_leaves_record:
  "(fst (add_phone raw r) = Inl e \<longrightarrow> snd (add_phone raw r) = r) \<and>
   (length raw \<noteq> 10 \<or> \<not> isdigit raw \<longrightarrow>
      add_phone raw r = (Inl (ValueError ''Phone number must be 10 digits''), r)) \<and>
   (fst (edit_phone old new r) = Inl e' \<longrightarrow> snd (edit_phone old new r) = r)"
  by (auto simp: add_phone_def Phone_def edit_phone_def split: sum.splits if_splits)

theorem failed_call_leaves_record_witness:
  "fst (add_phone (ascii ''12345'') rec_ann) = Inl (ValueError ''Phone number must be 10 digits'') \<and>
   snd (add_phone (ascii ''12345'') rec_ann) = rec_ann \<and>
   fst (edit_phone (ascii ''9999999999'') (ascii ''2222222222'') rec_ann) =
     Inl (ValueError ''Old phone number is not exist'') \<and>
   snd (edit_phone (ascii ''9999999999'') (ascii ''2222222222'') rec_ann) = rec_ann \<and>
   fst (edit_phone (ascii ''1111111111'') (ascii ''12345'') rec_ann) =
     Inl (ValueError ''New phone number must be 10 digits'') \<and>
   snd (edit_phone (ascii ''1111111111'') (ascii ''12345'') rec_ann) = rec_ann"
proof -
  have a: "fst (add_phone (ascii ''12345'') rec_ann) =
      Inl (ValueError ''Phone number must be 10 digits'')"
    by (simp add: add_phone_def Phone_def ascii_def)
  have b: "fst (edit_phone (ascii ''9999999999'') (ascii ''2222222222'') rec_ann) =
      Inl (ValueError ''Old phone number is not exist'')"
    by (simp add: edit_phone_def rec_ann_def phone_1_def phone_2_def ascii_def)
  have c: "fst (edit_phone (ascii ''1111111111'') (ascii ''12345'') rec_ann) =
      Inl (ValueError ''New phone number must be 10 digits'')"
    by (simp add: edit_phone_def rec_ann_def phone_1_def phone_2_def ascii_def)
  from a b c
    failed_call_leaves_record [of "ascii ''12345''" rec_ann
      "ValueError ''Phone number must be 10 digits''"
      "ascii ''9999999999''" "ascii ''2222222222''" "ValueError ''Old phone number is not exist''"]
    failed_call_leaves_record [of "ascii ''12345''" rec_ann
      "ValueError ''Phone number must be 10 digits''"
      "ascii ''1111111111''" "ascii ''12345''" "ValueError ''New phone number must be 10 digits''"]
  show ?thesis by simp
qed

text \<open>
  Claim C8. \<open>remove_phone\<close> keeps exactly the phones whose value differs from the
  argument, in their order, touches nothing else, and changes nothing when no phone
  matches. \<open>delete\<close> changes nothing when the name is absent; otherwise the name is
  absent afterwards, the other entries and their order are kept. \<open>find\<close> and
  \<open>find_phone\<close> return \<open>None\<close> exactly when nothing matches.
\<close>

theorem remove_delete_find_total:
  "phones (remove_phone raw r) = filter (\<lambda>p. field_value p \<noteq> raw) (phones r) \<and>
   name (remove_phone raw r) = name r \<and> birthday (remove_phone raw r) = birthday r \<and>
   ((\<forall>p \<in> set (phones r). field_value p \<noteq> raw) \<longrightarrow> remove_phone raw r = r) \<and>
   (n \<notin> set (dict_keys book) \<longrightarrow> AddressBook_delete n book = book) \<and>
   (distinct (dict_keys book) \<longrightarrow>
      AddressBook_find (AddressBook_delete n book) n = None \<and>
      (\<forall>n'. n' \<noteq> n \<longrightarrow>
         AddressBook_find (AddressBook_delete n book) n' = AddressBook_find book n') \<and>
      dict_keys (AddressBook_delete n book) = filter (\<lambda>k. k \<noteq> n) (dict_keys book)) \<and>
   (AddressBook_find book n = None \<longleftrightarrow> n \<notin> set (dict_keys book)) \<and>
   (find_phone raw r = None \<longleftrightarrow> (\<forall>p \<in> set (phones r). field_value p \<noteq> raw))"
proof -
  have rem: "phones (remove_phone raw r) = filter (\<lambda>p. field_value p \<noteq> raw) (phones r)"
    by (simp add: remove_phone_def remove_phone_loop_filter)
  have same: "(\<forall>p \<in> set (phones r). field_value p \<noteq> raw) \<longrightarrow> remove_phone raw r = r"
    by (simp add: remove_phone_def remove_phone_loop_filter)
  have noop: "n \<notin> set (dict_keys book) \<longrightarrow> AddressBook_delete n book = book"
    by (simp add: AddressBook_delete_def dict_contains_keys)
  have del: "distinct (dict_keys book) \<longrightarrow>
      AddressBook_find (AddressBook_delete n book) n = None \<and>
      (\<forall>n'. n' \<noteq> n \<longrightarrow>
         AddressBook_find (AddressBook_delete n book) n' = AddressBook_find book n') \<and>
      dict_keys (AddressBook_delete n book) = filter (\<lambda>k. k \<noteq> n) (dict_keys book)"
  proof
    assume d: "distinct (dict_keys book)"
    have "remove1 n (dict_keys book) = filter (\<lambda>k. k \<noteq> n) (dict_keys book)"
      using d by (simp add: distinct_remove1_removeAll removeAll_filter_not_eq) metis
    moreover have "n \<notin> set (dict_keys book) \<Longrightarrow>
        filter (\<lambda>k. k \<noteq> n) (dict_keys book) = dict_keys book"
      by (induction book) (auto simp: dict_keys_def)
    ultimately show "AddressBook_find (AddressBook_delete n book) n = None \<and>
      (\<forall>n'. n' \<noteq> n \<longrightarrow>
         AddressBook_find (AddressBook_delete n book) n' = AddressBook_find book n') \<and>
      dict_keys (AddressBook_delete n book) = filter (\<lambda>k. k \<noteq> n) (dict_keys book)"
      using d
      by (simp add: AddressBook_find_def AddressBook_delete_def dict_contains_keys
          dict_get_delitem dict_get_None dict_keys_delitem)
  qed
  have fnd: "AddressBook_find book n = None \<longleftrightarrow> n \<notin> set (dict_keys book)"
    by (simp add: AddressBook_find_def dict_get_None)
  have fph: "find_phone raw r = None \<longleftrightarrow> (\<forall>p \<in> set (phones r). field_value p \<noteq> raw)"
    by (simp add: find_phone_def find_phone_loop_None)
  from rem same noop del fnd fph show ?thesis
    by (simp add: remove_phone_def)
qed

theorem remove_delete_find_total_witness:
  "remove_phone (ascii ''9999999999'') rec_ann = rec_ann \<and>
   phones (remove_phone (ascii ''1111111111'') rec_ann) = [phone_2] \<and>
   find_phone (ascii ''9999999999'') rec_ann = None \<and>
   AddressBook_delete (ascii ''Bob'') [(ascii ''Ann'', rec_ann)] = [(ascii ''Ann'', rec_ann)] \<and>
   AddressBook_find [(ascii ''Ann'', rec_ann)] (ascii ''Bob'') = None \<and>
   AddressBook_find (AddressBook_delete (ascii ''Ann'')
      [(ascii ''Ann'', rec_ann), (ascii ''Bob'', rec_bob)]) (ascii ''Ann'') = None \<and>
   AddressBook_find (AddressBook_delete (ascii ''Ann'')
      [(ascii ''Ann'', rec_ann), (ascii ''Bob'', rec_bob)]) (ascii ''Bob'') = Some rec_bob \<and>
   dict_keys (AddressBook_delete (ascii ''Ann'')
      [(ascii ''Ann'', rec_ann), (ascii ''Bob'', rec_bob)]) = [ascii ''Bob'']"
proof -
  have ne: "ascii ''Bob'' \<noteq> ascii ''Ann''" "phone_1 \<noteq> phone_2"
    "field_value phone_1 = ascii ''1111111111''" "field_value phone_2 \<noteq> ascii ''1111111111''"
    by (simp_all add: ascii_def phone_1_def phone_2_def)
  have h1: "\<forall>p \<in> set (phones rec_ann). field_value p \<noteq> ascii ''9999999999''"
    by (simp add: rec_ann_def phone_1_def phone_2_def ascii_def)
  have h2: "ascii ''Bob'' \<notin> set (dict_keys [(ascii ''Ann'', rec_ann)])"
    using ne by (simp add: dict_keys_def)
  have h3: "distinct (dict_keys [(ascii ''Ann'', rec_ann), (ascii ''Bob'', rec_bob)])"
    using ne by (simp add: dict_keys_def)
  have h4: "dict_get [(ascii ''Ann'', rec_ann), (ascii ''Bob'', rec_bob)] (ascii ''Bob'') =
      Some rec_bob"
    using ne by simp
  from ne h1 h2 h3 h4
    remove_delete_find_total [of "ascii ''9999999999''" rec_ann "ascii ''Bob''"
      "[(ascii ''Ann'', rec_ann)]"]
    remove_delete_find_total [of "ascii ''1111111111''" rec_ann "ascii ''Ann''"
      "[(ascii ''Ann'', rec_ann), (ascii ''Bob'', rec_bob)]"]
  show ?thesis
    by (simp add: AddressBook_find_def dict_keys_def rec_ann_def)
qed

text \<open>
  Claim C10. After any history of \<open>add_record\<close> and \<open>delete\<close> calls on a new address
  book, every name present is found, and the record found under a name has that name.
\<close>

theorem found_record_has_its_key:
  "(k \<in> set (dict_keys (run_ops ops AddressBook_init)) \<longrightarrow>
      (\<exists>r. AddressBook_find (run_ops ops AddressBook_init) k = Some r \<and>
           field_value (name r) = k)) \<and>
   (AddressBook_find (run_ops ops AddressBook_init) k = Some r \<longrightarrow> field_value (name r) = k)"
proof -
  have inv: "keyed_by_name (run_ops ops AddressBook_init)"
    by (rule keyed_by_name_run_ops)
  have b: "AddressBook_find (run_ops ops AddressBook_init) k = Some r' \<Longrightarrow>
      field_value (name r') = k" for r'
    using inv dict_get_Some_mem [of "run_ops ops AddressBook_init" k r']
    by (auto simp: keyed_by_name_def AddressBook_find_def)
  have a: "k \<in> set (dict_keys (run_ops ops AddressBook_init)) \<Longrightarrow>
      \<exists>r. AddressBook_find (run_ops ops AddressBook_init) k = Some r"
    using dict_get_None [of "run_ops ops AddressBook_init" k]
    by (auto simp: AddressBook_find_def)
  from a b show ?thesis by blast
qed

theorem found_record_has_its_key_witness:
  "ascii ''Ann'' \<in> set (dict_keys
      (run_ops [AddRecord rec_ann, AddRecord rec_bob, Delete (ascii ''Bob''), AddRecord rec_ann2]
         AddressBook_init)) \<and>
   AddressBook_find
      (run_ops [AddRecord rec_ann, AddRecord rec_bob, Delete (ascii ''Bob''), AddRecord rec_ann2]
         AddressBook_init) (ascii ''Ann'') = Some rec_ann2 \<and>
   field_value (name rec_ann2) = ascii ''Ann''"
proof -
  have ne: "ascii ''Bob'' \<noteq> ascii ''Ann''"
    by (simp add: ascii_def)
  have run: "run_ops [AddRecord rec_ann, AddRecord rec_bob, Delete (ascii ''Bob''),
      AddRecord rec_ann2] AddressBook_init = [(ascii ''Ann'', rec_ann2)]"
    using ne
    by (simp add: run_ops_def AddressBook_init_def add_record_def AddressBook_delete_def
        dict_contains_def rec_ann_def rec_bob_def rec_ann2_def Name_def)
  have "AddressBook_find [(ascii ''Ann'', rec_ann2)] (ascii ''Ann'') = Some rec_ann2"
    by (simp add: AddressBook_find_def)
  with run found_record_has_its_key [of "ascii ''Ann''"
      "[AddRecord rec_ann, AddRecord rec_bob, Delete (ascii ''Bob''), AddRecord rec_ann2]" rec_ann2]
  show ?thesis by (simp add: dict_keys_def)
qed

section \<open>The order of the address book\<close>

lemma dict_keys_apply_op:
  "distinct (dict_keys book) \<Longrightarrow> dict_keys (apply_op book x) = key_order_step (dict_keys book) x"
proof (cases x)
  case (AddRecord r)
  then show ?thesis by (simp add: add_record_def dict_keys_setitem)
next
  case (Delete n)
  assume "distinct (dict_keys book)"
  with Delete show ?thesis
    by (simp add: AddressBook_delete_def dict_contains_keys dict_keys_delitem
        distinct_remove1_removeAll)
qed

lemma dict_keys_foldl_apply_op:
  "distinct (dict_keys book) \<Longrightarrow>
     dict_keys (foldl apply_op book ops) = foldl key_order_step (dict_keys book) ops"
proof (induction ops arbitrary: book)
  case Nil
  then show ?case by simp
next
  case (Cons x ops)
  from Cons.prems have "distinct (dict_keys (apply_op book x))"
    by (rule distinct_apply_op)
  with Cons.IH [of "apply_op book x"] Cons.prems show ?case
    by (simp add: dict_keys_apply_op)
qed

lemma filter_removeAll_absent:
  "filter (\<lambda>k. k \<notin> insert a A) (removeAll a xs) = filter (\<lambda>k. k \<notin> insert a A) xs"
  by (induction xs) auto

lemma filter_append_absent:
  "filter (\<lambda>k. k \<notin> set (ks @ [a])) xs = filter (\<lambda>k. k \<notin> set ks) (removeAll a xs)"
  by (induction xs) auto

lemma foldl_add_first_insertions:
  "foldl key_order_step ks (map AddRecord rs) =
     ks @ filter (\<lambda>k. k \<notin> set ks) (first_insertions (map (\<lambda>r. field_value (name r)) rs))"
proof (induction rs arbitrary: ks)
  case Nil
  then show ?case by simp
next
  case (Cons r rs)
  let ?k = "field_value (name r)"
  let ?fi = "first_insertions (map (\<lambda>r. field_value (name r)) rs)"
  show ?case
  proof (cases "?k \<in> set ks")
    case True
    then have "insert ?k (set ks) = set ks" by auto
    with filter_removeAll_absent [of ?k "set ks" ?fi]
    have "filter (\<lambda>k. k \<notin> set ks) (removeAll ?k ?fi) = filter (\<lambda>k. k \<notin> set ks) ?fi"
      by simp
    with True Cons.IH [of ks] show ?thesis by simp
  next
    case False
    have "filter (\<lambda>k. k \<notin> set (ks @ [?k])) ?fi =
        filter (\<lambda>k. k \<notin> set ks) (removeAll ?k ?fi)"
      by (rule filter_append_absent)
    with False Cons.IH [of "ks @ [?k]"] show ?thesis by simp
  qed
qed

lemma filter_mem_self: "filter (\<lambda>k. k \<in> set xs) xs = xs"
  by (induction xs) auto

lemma added_names_AddRecord: "added_names (map AddRecord rs) = map (\<lambda>r. field_value (name r)) rs"
  by (induction rs) auto

lemma dict_keys_run_ops: "dict_keys (run_ops ops AddressBook_init) = foldl key_order_step [] ops"
  using dict_keys_foldl_apply_op [of "[]" ops]
  by (simp add: run_ops_def AddressBook_init_def dict_keys_def)

lemma dict_keys_add_only:
  "dict_keys (run_ops (map AddRecord rs) AddressBook_init) =
     first_insertions (map (\<lambda>r. field_value (name r)) rs)"
  by (simp add: dict_keys_run_ops foldl_add_first_insertions)

text \<open>
  Claim C7. Adding a record under the name of a stored record replaces the stored record
  wholly, so that nothing of the first record is left; the names of the address book are
  distinct after every history; and after every history of \<open>add_record\<close> calls on a new
  address book the names iterate in the order of their first-ever insertion.
\<close>

theorem add_record_replaces_keeps_place:
  "(field_value (name r2) = field_value (name r1) \<longrightarrow>
      add_record r2 (add_record r1 book) = add_record r2 book \<and>
      AddressBook_find (add_record r2 (add_record r1 book)) (field_value (name r1)) = Some r2) \<and>
   distinct (dict_keys (run_ops ops AddressBook_init)) \<and>
   dict_keys (run_ops (map AddRecord rs) AddressBook_init) =
     first_insertions (map (\<lambda>r. field_value (name r)) rs) \<and>
   dict_keys (run_ops (map AddRecord rs) AddressBook_init) = first_ever_order (map AddRecord rs)"
proof -
  have repl: "field_value (name r2) = field_value (name r1) \<longrightarrow>
      add_record r2 (add_record r1 book) = add_record r2 book \<and>
      AddressBook_find (add_record r2 (add_record r1 book)) (field_value (name r1)) = Some r2"
    by (simp add: add_record_def dict_setitem_twice AddressBook_find_def dict_get_setitem)
  have dist: "distinct (dict_keys (run_ops ops AddressBook_init))"
    by (rule distinct_run_ops)
  have ins: "dict_keys (run_ops (map AddRecord rs) AddressBook_init) =
      first_insertions (map (\<lambda>r. field_value (name r)) rs)"
    by (rule dict_keys_add_only)
  have "first_ever_order (map AddRecord rs) =
      first_insertions (map (\<lambda>r. field_value (name r)) rs)"
    by (simp add: first_ever_order_def dict_keys_add_only added_names_AddRecord
        filter_mem_self)
  with ins have ord: "dict_keys (run_ops (map AddRecord rs) AddressBook_init) =
      first_ever_order (map AddRecord rs)"
    by simp
  from repl dist ins ord show ?thesis
    by (intro conjI)
qed

theorem add_record_replaces_keeps_place_witness:
  "add_record rec_ann2 (add_record rec_ann [(ascii ''Bob'', rec_bob)]) =
     [(ascii ''Bob'', rec_bob), (ascii ''Ann'', rec_ann2)] \<and>
   AddressBook_find (add_record rec_ann2 (add_record rec_ann [(ascii ''Bob'', rec_bob)]))
     (ascii ''Ann'') = Some rec_ann2 \<and>
   dict_keys (run_ops (map AddRecord [rec_bob, rec_ann, rec_ann2, rec_bob]) AddressBook_init) =
     [ascii ''Bob'', ascii ''Ann'']"
proof -
  have ne: "ascii ''Bob'' \<noteq> ascii ''Ann''" "ascii ''Ann'' \<noteq> ascii ''Bob''"
    by (simp_all add: ascii_def)
  have names: "field_value (name rec_ann) = ascii ''Ann''"
    "field_value (name rec_ann2) = ascii ''Ann''" "field_value (name rec_bob) = ascii ''Bob''"
    by (simp_all add: rec_ann_def rec_ann2_def rec_bob_def Name_def)
  have "add_record rec_ann2 [(ascii ''Bob'', rec_bob)] =
      [(ascii ''Bob'', rec_bob), (ascii ''Ann'', rec_ann2)]"
    using ne names by (simp add: add_record_def)
  with ne names add_record_replaces_keeps_place [of rec_ann2 rec_ann "[(ascii ''Bob'', rec_bob)]"
      _ "[rec_bob, rec_ann, rec_ann2, rec_bob]"]
  show ?thesis by (simp add: AddressBook_find_def)
qed

text \<open>
  With \<open>delete\<close> in the history the dict behaves as an ordered map: adding under a
  present name keeps its place, adding under an absent name appends it, and deleting
  removes it, so a name deleted and added again iterates last.
\<close>

lemma readded_name_iterates_last:
  "dict_keys (run_ops [AddRecord rec_ann, AddRecord rec_bob, Delete (ascii ''Ann''),
       AddRecord rec_ann] AddressBook_init) = [ascii ''Bob'', ascii ''Ann'']"
proof -
  have ne: "ascii ''Bob'' \<noteq> ascii ''Ann''" "ascii ''Ann'' \<noteq> ascii ''Bob''"
    by (simp_all add: ascii_def)
  have names: "field_value (name rec_ann) = ascii ''Ann''"
    "field_value (name rec_bob) = ascii ''Bob''"
    by (simp_all add: rec_ann_def rec_bob_def Name_def)
  show ?thesis
    using ne names by (simp add: dict_keys_run_ops)
qed

section \<open>Claims about birthdays\<close>







text \<open>
  Claim C5. On a record that has a birthday, \<open>add_birthday\<close> fails with the
  only-one-birthday error and leaves the record, and so the stored birthday, unchanged;
  in particular a second call after a successful one fails so. On a record without a
  birthday, \<open>add_birthday\<close> with the DD.MM.YYYY text of a date of the calendar stores that
  date.
\<close>

theorem add_birthday_only_once:
  "(birthday r = Some b \<longrightarrow>
      add_birthday v r = (Inl (ValueError ''Only one birthday is allowed per record.''), r)) \<and>
   (birthday r = None \<and> date_valid dt \<longrightarrow>
      add_birthday (strftime_dmY dt) r = (Inr (), r\<lparr>birthday := Some \<lparr>field_value = dt\<rparr>\<rparr>) \<and>
      str_Birthday \<lparr>field_value = dt\<rparr> = strftime_dmY dt) \<and>
   (fst (add_birthday v1 r) = Inr () \<longrightarrow>
      add_birthday v2 (snd (add_birthday v1 r)) =
        (Inl (ValueError ''Only one birthday is allowed per record.''), snd (add_birthday v1 r)))"
proof -
  have a: "birthday r' = Some b' \<Longrightarrow>
      add_birthday v' r' = (Inl (ValueError ''Only one birthday is allowed per record.''), r')"
    for r' b' v'
    by (simp add: add_birthday_def)
  have b: "birthday r = None \<and> date_valid dt \<longrightarrow>
      add_birthday (strftime_dmY dt) r = (Inr (), r\<lparr>birthday := Some \<lparr>field_value = dt\<rparr>\<rparr>) \<and>
      str_Birthday \<lparr>field_value = dt\<rparr> = strftime_dmY dt"
    by (simp add: add_birthday_def Birthday_strftime str_Birthday_def)
  have c: "fst (add_birthday v1 r) = Inr () \<Longrightarrow> \<exists>b'. birthday (snd (add_birthday v1 r)) = Some b'"
    by (auto simp: add_birthday_def split: option.splits sum.splits)
  from a [of r b v] b c a [of "snd (add_birthday v1 r)" _ v2] show ?thesis
    by blast
qed

theorem add_birthday_only_once_witness:
  "add_birthday (ascii ''12.06.1990'') (Record_init (ascii ''Ann'')) =
     (Inr (), rec_with_birthday ''Ann'' ''12.06.1990'') \<and>
   birthday (rec_with_birthday ''Ann'' ''12.06.1990'') =
     Some \<lparr>field_value = \<lparr>year = 1990, month = 6, day = 12\<rparr>\<rparr> \<and>
   add_birthday (ascii ''15.06.1995'') (rec_with_birthday ''Ann'' ''12.06.1990'') =
     (Inl (ValueError ''Only one birthday is allowed per record.''),
      rec_with_birthday ''Ann'' ''12.06.1990'')"
proof -
  have s: "strftime_dmY \<lparr>year = 1990, month = 6, day = 12\<rparr> = ascii ''12.06.1990''"
    by (simp add: strftime_dmY_def zfill2_def zfill4_def ascii_simps)
  have n: "birthday (Record_init (ascii ''Ann'')) = None"
    by (simp add: Record_init_def)
  from s n add_birthday_only_once [of "Record_init (ascii ''Ann'')" _ _
      "\<lparr>year = 1990, month = 6, day = 12\<rparr>"]
  have first: "add_birthday (ascii ''12.06.1990'') (Record_init (ascii ''Ann'')) =
      (Inr (), (Record_init (ascii ''Ann''))
        \<lparr>birthday := Some \<lparr>field_value = \<lparr>year = 1990, month = 6, day = 12\<rparr>\<rparr>\<rparr>)"
    by (simp add: date_valid_num)
  then have r: "rec_with_birthday ''Ann'' ''12.06.1990'' = (Record_init (ascii ''Ann''))
        \<lparr>birthday := Some \<lparr>field_value = \<lparr>year = 1990, month = 6, day = 12\<rparr>\<rparr>\<rparr>"
    by (simp add: rec_with_birthday_def)
  from first add_birthday_only_once [of "Record_init (ascii ''Ann'')" _ _ _
      "ascii ''12.06.1990''" "ascii ''15.06.1995''"]
  have "add_birthday (ascii ''15.06.1995'') (rec_with_birthday ''Ann'' ''12.06.1990'') =
     (Inl (ValueError ''Only one birthday is allowed per record.''),
      rec_with_birthday ''Ann'' ''12.06.1990'')"
    by (simp add: rec_with_birthday_def)
  with first r show ?thesis by simp
qed

section \<open>Claims about the scheduler\<close>

text \<open>
  Claim C1. The specification says that for every directory and every date the scheduler
  reports exactly the records whose next birthday is between 0 and 7 days after today, in
  directory order, and the empty sequence rather than an error when there is none. The
  loop has no case for a birthday on 29 February: with such a birthday in the directory
  and a today of 2023, \<open>replace(year=2023)\<close> raises, the exception ends the command, and
  nothing is displayed. Ann, whose birthday on 12 June is two days after 2023.06.10, is
  in the window and is not reported.
\<close>

theorem birthdays_raises_on_leap_day:
  "rec_with_birthday ''Ann'' ''12.06.1990'' \<in> set (dict_values book_leap) \<and>
   in_window today_2023 (rec_with_birthday ''Ann'' ''12.06.1990'') \<and>
   birthday_list book_leap today_2023 = Inl (ValueError ''day is out of range for month'') \<and>
   birthdays book_leap today_2023 = Inl (ValueError ''day is out of range for month'')"
proof -
  let ?ann = "rec_with_birthday ''Ann'' ''12.06.1990''"
  let ?eve = "rec_with_birthday ''Eve'' ''29.02.2000''"
  have nb: "next_birthday today_2023 \<lparr>year = 1990, month = 6, day = 12\<rparr> =
      \<lparr>year = 2023, month = 6, day = 12\<rparr>"
    by (simp add: next_birthday_def today_2023_def date_lt_def)
  have w: "in_window today_2023 ?ann"
    by (simp add: in_window_def rec_ann_b days_to_birthday_def nb)
      (simp add: today_2023_def toordinal_num)
  have "placeable today_2023 \<lparr>year = 1990, month = 6, day = 12\<rparr>"
    by (simp add: placeable_def exists_in_year_def date_valid_def today_2023_def date_lt_def
        MINYEAR_def MAXYEAR_def days_in_month_num)
  then have a: "birthday_entry today_2023 ?ann = Inr (upcoming_entry today_2023 ?ann)"
    by (intro birthday_entry_eq [where b = "\<lparr>field_value = \<lparr>year = 1990, month = 6, day = 12\<rparr>\<rparr>"])
      (simp_all add: rec_ann_b)
  have e: "birthday_entry today_2023 ?eve = Inl (ValueError ''day is out of range for month'')"
    by (simp add: birthday_entry_def rec_eve_b date_replace_year_def date_new_def
        today_2023_def MINYEAR_def MAXYEAR_def days_in_month_num is_leap_def)
  have "0 < toordinal today_2023 + 7" "toordinal today_2023 + 7 \<le> MAXORDINAL"
    by (simp_all add: today_2023_def toordinal_num MAXORDINAL_def)
  from date_add_correct [OF this] obtain next_week where
    "date_add today_2023 7 = Inr next_week" by blast
  with a e have "birthday_list book_leap today_2023 =
      Inl (ValueError ''day is out of range for month'')"
    by (simp add: birthday_list_def dict_values_book_leap split: option.splits)
  with w show ?thesis by (simp add: dict_values_book_leap birthdays_def)
qed

theorem birthdays_raises_on_leap_day_witness:
  "in_window today_2023 (rec_with_birthday ''Ann'' ''12.06.1990'') \<and>
   birthday_list book_leap today_2023 \<noteq> Inr (upcoming today_2023 (dict_values book_leap))"
  using birthdays_raises_on_leap_day by simp

text \<open>
  What holds of the code. For every directory and every valid date today such that today
  plus seven days is a date (today is not in the last week of the year 9999) and every
  stored birthday exists in the year of today and, when it is before today there, in the
  following year (no 29 February meets a year that is not a leap year): the scheduler
  returns, in directory order, one entry for exactly the records that have a birthday
  whose next occurrence, the birthday in the year of today rolled forward one year when
  strictly before today, is between 0 and 7 days after today; when no record qualifies
  the result is the empty sequence.
\<close>

theorem birthdays_within_week:
  "date_valid today \<and> toordinal today + 7 \<le> MAXORDINAL \<and>
   all_placeable today (dict_values book) \<longrightarrow>
     birthday_list book today = Inr (upcoming today (dict_values book)) \<and>
     map fst (upcoming today (dict_values book)) =
       map (\<lambda>r. field_value (name r)) (filter (in_window today) (dict_values book)) \<and>
     ((\<forall>r \<in> set (dict_values book). \<not> in_window today r) \<longrightarrow>
        birthday_list book today = Inr [])"
proof
  assume a: "date_valid today \<and> toordinal today + 7 \<le> MAXORDINAL \<and>
    all_placeable today (dict_values book)"
  then have l: "birthday_list book today = Inr (upcoming today (dict_values book))"
    by (intro birthday_list_placeable) simp_all
  have "(\<forall>r \<in> set (dict_values book). \<not> in_window today r) \<longrightarrow>
      birthday_list book today = Inr []"
    using l upcoming_empty [of "dict_values book" today] by simp
  with l upcoming_names [of today "dict_values book"] show
    "birthday_list book today = Inr (upcoming today (dict_values book)) \<and>
     map fst (upcoming today (dict_values book)) =
       map (\<lambda>r. field_value (name r)) (filter (in_window today) (dict_values book)) \<and>
     ((\<forall>r \<in> set (dict_values book). \<not> in_window today r) \<longrightarrow>
        birthday_list book today = Inr [])"
    by (intro conjI)
qed

theorem birthdays_within_week_witness:
  "date_valid today_scenario \<and> toordinal today_scenario + 7 \<le> MAXORDINAL \<and>
   all_placeable today_scenario (dict_values book_scenario) \<and>
   birthday_list book_scenario today_scenario =
     Inr (upcoming today_scenario (dict_values book_scenario)) \<and>
   map (\<lambda>r. field_value (name r))
     (filter (in_window today_scenario) (dict_values book_scenario)) =
     [ascii ''Ann'', ascii ''Bob'']"
  using birthdays_within_week [of today_scenario book_scenario]
    today_scenario_ok placeable_scenario
  by (simp add: upcoming_scenario)

text \<open>
  Claim C2. Every entry of the result belongs to a record of the directory with a birthday
  in the window: it pairs the name of the record, unmodified, with the text YYYY.MM.DD of
  the congratulation date. That date is the next birthday itself on Monday to Friday; for
  a Saturday it is two days later and for a Sunday one day later, and it is then a Monday.
  In the scenario of Monday 2024.06.10, Ann (12.06) is reported for 2024.06.12, a
  Wednesday, Bob (15.06, a Saturday) for Monday 2024.06.17, and Cid (01.01) is left out.
\<close>

theorem congratulation_date_off_weekend:
  "(birthday_list book today = Inr entries \<and> (n, s) \<in> set entries \<longrightarrow>
      (\<exists>r b. r \<in> set (dict_values book) \<and> birthday r = Some b \<and> in_window today r \<and>
         n = field_value (name r) \<and>
         s = strftime_Ymd (off_weekend (next_birthday today (field_value b))) \<and>
         date_valid (off_weekend (next_birthday today (field_value b))) \<and>
         (weekday (next_birthday today (field_value b)) = 5 \<longrightarrow>
            toordinal (off_weekend (next_birthday today (field_value b))) =
              toordinal (next_birthday today (field_value b)) + 2 \<and>
            weekday (off_weekend (next_birthday today (field_value b))) = 0) \<and>
         (weekday (next_birthday today (field_value b)) = 6 \<longrightarrow>
            toordinal (off_weekend (next_birthday today (field_value b))) =
              toordinal (next_birthday today (field_value b)) + 1 \<and>
            weekday (off_weekend (next_birthday today (field_value b))) = 0) \<and>
         (weekday (next_birthday today (field_value b)) < 5 \<longrightarrow>
            off_weekend (next_birthday today (field_value b)) =
              next_birthday today (field_value b)))) \<and>
   weekday today_scenario = 0 \<and>
   weekday \<lparr>year = 2024, month = 6, day = 12\<rparr> = 2 \<and>
   weekday \<lparr>year = 2024, month = 6, day = 15\<rparr> = 5 \<and>
   weekday \<lparr>year = 2024, month = 6, day = 17\<rparr> = 0 \<and>
   map (\<lambda>r. field_value (name r)) (dict_values book_scenario) =
     [ascii ''Ann'', ascii ''Bob'', ascii ''Cid''] \<and>
   birthday_list book_scenario today_scenario =
     Inr [(ascii ''Ann'', ascii ''2024.06.12''), (ascii ''Bob'', ascii ''2024.06.17'')]"
proof -
  have g: "birthday_list book today = Inr entries \<and> (n, s) \<in> set entries \<longrightarrow>
      (\<exists>r b. r \<in> set (dict_values book) \<and> birthday r = Some b \<and> in_window today r \<and>
         n = field_value (name r) \<and>
         s = strftime_Ymd (off_weekend (next_birthday today (field_value b))) \<and>
         date_valid (off_weekend (next_birthday today (field_value b))) \<and>
         (weekday (next_birthday today (field_value b)) = 5 \<longrightarrow>
            toordinal (off_weekend (next_birthday today (field_value b))) =
              toordinal (next_birthday today (field_value b)) + 2 \<and>
            weekday (off_weekend (next_birthday today (field_value b))) = 0) \<and>
         (weekday (next_birthday today (field_value b)) = 6 \<longrightarrow>
            toordinal (off_weekend (next_birthday today (field_value b))) =
              toordinal (next_birthday today (field_value b)) + 1 \<and>
            weekday (off_weekend (next_birthday today (field_value b))) = 0) \<and>
         (weekday (next_birthday today (field_value b)) < 5 \<longrightarrow>
            off_weekend (next_birthday today (field_value b)) =
              next_birthday today (field_value b)))"
  proof
    assume "birthday_list book today = Inr entries \<and> (n, s) \<in> set entries"
    then have "birthday_list book today = Inr entries" "(n, s) \<in> set entries" by simp_all
    from birthday_list_entry [OF this] obtain r b where
      r: "r \<in> set (dict_values book)" "birthday r = Some b" "placeable today (field_value b)"
      "upcoming_entry today r = Some (n, s)"
      by blast
    from upcoming_entry_Some [OF r(2-4)] r(1,2) show
      "\<exists>r b. r \<in> set (dict_values book) \<and> birthday r = Some b \<and> in_window today r \<and>
         n = field_value (name r) \<and>
         s = strftime_Ymd (off_weekend (next_birthday today (field_value b))) \<and>
         date_valid (off_weekend (next_birthday today (field_value b))) \<and>
         (weekday (next_birthday today (field_value b)) = 5 \<longrightarrow>
            toordinal (off_weekend (next_birthday today (field_value b))) =
              toordinal (next_birthday today (field_value b)) + 2 \<and>
            weekday (off_weekend (next_birthday today (field_value b))) = 0) \<and>
         (weekday (next_birthday today (field_value b)) = 6 \<longrightarrow>
            toordinal (off_weekend (next_birthday today (field_value b))) =
              toordinal (next_birthday today (field_value b)) + 1 \<and>
            weekday (off_weekend (next_birthday today (field_value b))) = 0) \<and>
         (weekday (next_birthday today (field_value b)) < 5 \<longrightarrow>
            off_weekend (next_birthday today (field_value b)) =
              next_birthday today (field_value b))"
      by (intro exI [of _ r] exI [of _ b]) simp
  qed
  have names: "map (\<lambda>r. field_value (name r)) (dict_values book_scenario) =
      [ascii ''Ann'', ascii ''Bob'', ascii ''Cid'']"
    by (simp add: dict_values_book_scenario rec_ann_b rec_bob_b rec_cid_b Name_def)
  have w0: "weekday today_scenario = 0"
    by (simp add: today_scenario_def weekday_scenario)
  from g w0 weekday_scenario(2-4) names birthday_list_scenario show ?thesis
    by (intro conjI)
qed

theorem congratulation_date_off_weekend_witness:
  "(ascii ''Bob'', ascii ''2024.06.17'') \<in>
     set [(ascii ''Ann'', ascii ''2024.06.12''), (ascii ''Bob'', ascii ''2024.06.17'')] \<and>
   birthday_list book_scenario today_scenario =
     Inr [(ascii ''Ann'', ascii ''2024.06.12''), (ascii ''Bob'', ascii ''2024.06.17'')] \<and>
   (\<exists>r b. r \<in> set (dict_values book_scenario) \<and> birthday r = Some b \<and>
      in_window today_scenario r \<and> ascii ''Bob'' = field_value (name r) \<and>
      ascii ''2024.06.17'' =
        strftime_Ymd (off_weekend (next_birthday today_scenario (field_value b))))"
proof -
  have m: "(ascii ''Bob'', ascii ''2024.06.17'') \<in>
     set [(ascii ''Ann'', ascii ''2024.06.12''), (ascii ''Bob'', ascii ''2024.06.17'')]"
    by simp
  note t = congratulation_date_off_weekend [of book_scenario today_scenario
      "[(ascii ''Ann'', ascii ''2024.06.12''), (ascii ''Bob'', ascii ''2024.06.17'')]"
      "ascii ''Bob''" "ascii ''2024.06.17''"]
  from t have l: "birthday_list book_scenario today_scenario =
     Inr [(ascii ''Ann'', ascii ''2024.06.12''), (ascii ''Bob'', ascii ''2024.06.17'')]"
    by (elim conjE)
  from t l m have "\<exists>r b. r \<in> set (dict_values book_scenario) \<and> birthday r = Some b \<and>
      in_window today_scenario r \<and> ascii ''Bob'' = field_value (name r) \<and>
      ascii ''2024.06.17'' =
        strftime_Ymd (off_weekend (next_birthday today_scenario (field_value b)))"
    by blast
  with m l show ?thesis by (intro conjI)
qed

end
